theory Spec2Isabelle
  imports Complex_Main
begin

section \<open>Sequence contexts of the inference pipeline (max/pipelines/context.py)\<close>

text \<open>
  A shallow embedding of the classes \<open>TextContext\<close> and \<open>TextAndVisionContext\<close>.
  Every method takes the object and returns the object as the call leaves it, together
  with the value returned or the exception raised: a Python exception does not undo the
  assignments made before it, and a caller may go on using the object afterwards.
  Python integers are unbounded, so all cursors are of type \<open>int\<close>.
\<close>

subsection \<open>Exceptions, numpy arrays, Python indexing\<close>

datatype error = ValueError | IndexError | AssertionError | OverflowError

type_synonym ('a, 's) outcome = "(error + 'a) \<times> 's"

definition CHUNK_SIZE :: int where
  "CHUNK_SIZE = 128"

text \<open>
  The element type of an array of token ids: one of numpy's fixed-width integer types.
  Storing a Python integer outside the type's range into such an array raises
  OverflowError (numpy 2); \<open>dtype_fits\<close> is the range.
\<close>

datatype dtype = Int8 | Int16 | Int32 | Int64 | UInt8 | UInt16 | UInt32 | UInt64

fun dtype_min :: "dtype \<Rightarrow> int" where
  "dtype_min Int8 = - (2 ^ 7)"
| "dtype_min Int16 = - (2 ^ 15)"
| "dtype_min Int32 = - (2 ^ 31)"
| "dtype_min Int64 = - (2 ^ 63)"
| "dtype_min _ = 0"

fun dtype_max :: "dtype \<Rightarrow> int" where
  "dtype_max Int8 = 2 ^ 7 - 1"
| "dtype_max Int16 = 2 ^ 15 - 1"
| "dtype_max Int32 = 2 ^ 31 - 1"
| "dtype_max Int64 = 2 ^ 63 - 1"
| "dtype_max UInt8 = 2 ^ 8 - 1"
| "dtype_max UInt16 = 2 ^ 16 - 1"
| "dtype_max UInt32 = 2 ^ 32 - 1"
| "dtype_max UInt64 = 2 ^ 64 - 1"

definition dtype_fits :: "dtype \<Rightarrow> int \<Rightarrow> bool" where
  "dtype_fits d v \<longleftrightarrow> dtype_min d \<le> v \<and> v \<le> dtype_max d"

text \<open>
  A numpy array of token ids, as the constructor receives it: its dtype, its shape and
  its elements in row-major order. A one-dimensional array of dtype \<open>d\<close> with the
  elements \<open>p\<close> is \<open>array1 d p\<close>.
\<close>

datatype ndarray = NDArray (dtype: dtype) (shape: "nat list") (flat: "int list")

definition ndim :: "ndarray \<Rightarrow> nat" where
  "ndim a = length (shape a)"

definition len_ndarray :: "ndarray \<Rightarrow> nat" where
  "len_ndarray a = hd (shape a)"

definition array1 :: "dtype \<Rightarrow> int list \<Rightarrow> ndarray" where
  "array1 d p = NDArray d [length p] p"

text \<open>
  \<open>a[i]\<close> on a one-dimensional array of length \<open>n\<close>: an index in \<open>[0, n)\<close> is itself,
  an index in \<open>[-n, 0)\<close> counts from the end, any other raises IndexError.
\<close>

definition np_index :: "'a list \<Rightarrow> int \<Rightarrow> error + nat" where
  "np_index xs i =
     (let n = int (length xs) in
      if 0 \<le> i \<and> i < n then Inr (nat i)
      else if - n \<le> i \<and> i < 0 then Inr (nat (n + i))
      else Inl IndexError)"

text \<open>
  \<open>a[i:j]\<close>: a negative bound counts from the end, and both bounds are clipped to
  \<open>[0, n]\<close>; a slice never raises.
\<close>

definition slice_bound :: "nat \<Rightarrow> int \<Rightarrow> nat" where
  "slice_bound n i = (if i < 0 then nat (max 0 (int n + i)) else min n (nat i))"

definition py_slice :: "'a list \<Rightarrow> int \<Rightarrow> int \<Rightarrow> 'a list" where
  "py_slice xs i j =
     (let lo = slice_bound (length xs) i; hi = slice_bound (length xs) j
      in take (hi - lo) (drop lo xs))"

text \<open>
  \<open>numpy.resize(a, new_size)\<close> for a one-dimensional \<open>a\<close>: the new array is filled with
  repeated copies of \<open>a\<close> (with zeros when \<open>a\<close> is empty), and a negative size raises
  ValueError.
\<close>

definition np_resize :: "int list \<Rightarrow> int \<Rightarrow> error + int list" where
  "np_resize a new_size =
     (if new_size < 0 then Inl ValueError
      else if length a = 0 \<or> new_size = 0 then Inr (replicate (nat new_size) 0)
      else let repeats = - ((- new_size) div int (length a))
           in Inr (take (nat new_size) (concat (replicate (nat repeats) a))))"

subsection \<open>The collaborators outside the file\<close>

text \<open>
  The grammar matcher (\<open>xgr.GrammarMatcher\<close>) and the class \<open>LogProbabilities\<close> are
  defined outside this file. A context is therefore polymorphic in the matcher's state
  \<open>'m\<close> and in the log-probability record \<open>'lp\<close>, and the methods take what the code
  uses of them as a parameter: \<open>accept_token\<close> (the matcher's answer and its next state)
  and the truth value Python gives each object in \<open>if self.matcher:\<close> and
  \<open>if log_probabilities:\<close>.
\<close>

record ('m, 'lp) collaborators =
  accept_token :: "'m \<Rightarrow> int \<Rightarrow> bool \<times> 'm"
  matcher_truth :: "'m \<Rightarrow> bool"
  logprobs_truth :: "'lp \<Rightarrow> bool"

subsection \<open>TextContext\<close>

record ('m, 'lp) TextContext =
  cache_seq_id :: int
  prompt :: "string + int list"
  max_length :: "int option"
  size_cap :: int
  tokens :: "int list"
  tokens_dtype :: dtype
  active_idx :: int
  start_idx :: int
  end_idx :: int
  completion_start_idx :: int
  completion_end_idx :: int
  log_probabilities :: int
  log_probabilities_echo :: bool
  log_probabilities_data :: "int \<Rightarrow> 'lp option"
  matcher :: "'m option"
  json_schema :: "string option"
  is_initial_prompt :: bool

text \<open>
  \<open>size_cap\<close> is the attribute \<open>self.size\<close>. The array \<open>self.tokens\<close> is the two
  fields \<open>tokens\<close> (its elements) and \<open>tokens_dtype\<close> (its dtype, that of the array the
  constructor was given: \<open>np.zeros(self.size, dtype=tokens.dtype)\<close>, which
  \<open>np.resize\<close> keeps). The capacity of the constructor is
  \<open>int(np.ceil(len(tokens) / CHUNK_SIZE) * CHUNK_SIZE)\<close>; the floating-point division
  and product are exact for every length below \<open>2^53\<close>, and are modelled as exact.
\<close>

definition initial_size :: "nat \<Rightarrow> int" where
  "initial_size n = \<lceil>real n / real_of_int CHUNK_SIZE\<rceil> * CHUNK_SIZE"

definition TextContext_init ::
  "int \<Rightarrow> string + int list \<Rightarrow> int option \<Rightarrow> ndarray \<Rightarrow> int \<Rightarrow> bool \<Rightarrow> string option
     \<Rightarrow> error + ('m, 'lp) TextContext" where
  "TextContext_init cid pr ml toks lps echo js =
     (if ndim toks \<noteq> 1 then Inl ValueError
      else let sz = initial_size (len_ndarray toks) in
        if \<not> int (len_ndarray toks) \<le> sz then Inl AssertionError
        else Inr \<lparr>cache_seq_id = cid, prompt = pr, max_length = ml, size_cap = sz,
                  tokens = flat toks @ replicate (nat sz - len_ndarray toks) 0,
                  tokens_dtype = dtype toks,
                  active_idx = int (len_ndarray toks), start_idx = 0,
                  end_idx = int (len_ndarray toks),
                  completion_start_idx = int (len_ndarray toks),
                  completion_end_idx = int (len_ndarray toks),
                  log_probabilities = lps, log_probabilities_echo = echo,
                  log_probabilities_data = Map.empty,
                  matcher = None, json_schema = js, is_initial_prompt = True\<rparr>)"

definition set_matcher ::
  "('m, 'lp, 'z) TextContext_scheme \<Rightarrow> 'm \<Rightarrow> ('m, 'lp, 'z) TextContext_scheme" where
  "set_matcher c m = c\<lparr>matcher := Some m\<rparr>"

definition current_length :: "('m, 'lp, 'z) TextContext_scheme \<Rightarrow> int" where
  "current_length c = end_idx c"

definition active_length :: "('m, 'lp, 'z) TextContext_scheme \<Rightarrow> int" where
  "active_length c = active_idx c - start_idx c"

text \<open>\<open>x if x else 0\<close> for an optional delta: None and 0 both count as 0.\<close>

definition or_zero :: "int option \<Rightarrow> int" where
  "or_zero d = (case d of None \<Rightarrow> 0 | Some x \<Rightarrow> if x \<noteq> 0 then x else 0)"

definition bump_token_indices ::
  "('m, 'lp, 'z) TextContext_scheme \<Rightarrow> int option \<Rightarrow> int option \<Rightarrow> int option
     \<Rightarrow> (unit, ('m, 'lp, 'z) TextContext_scheme) outcome" where
  "bump_token_indices c start_d active_d end_d =
     (let new_start_idx = or_zero start_d + start_idx c;
          new_active_idx = or_zero active_d + active_idx c;
          new_end_idx = or_zero end_d + end_idx c
      in if new_start_idx \<ge> new_active_idx then (Inl ValueError, c)
         else if new_active_idx > new_end_idx then (Inl ValueError, c)
         else (Inr (), c\<lparr>start_idx := new_start_idx, active_idx := new_active_idx,
                          end_idx := new_end_idx\<rparr>))"

definition next_tokens :: "('m, 'lp, 'z) TextContext_scheme \<Rightarrow> int list" where
  "next_tokens c = py_slice (tokens c) (start_idx c) (active_idx c)"

definition upsize ::
  "('m, 'lp, 'z) TextContext_scheme \<Rightarrow> (unit, ('m, 'lp, 'z) TextContext_scheme) outcome" where
  "upsize c =
     (if end_idx c \<ge> size_cap c then
        let c1 = c\<lparr>size_cap := size_cap c + CHUNK_SIZE\<rparr> in
        (case np_resize (tokens c1) (size_cap c1) of
           Inl e \<Rightarrow> (Inl e, c1)
         | Inr t \<Rightarrow> (Inr (), c1\<lparr>tokens := t\<rparr>))
      else (Inr (), c))"

text \<open>
  The last two statements of \<open>update\<close> and of \<open>jump_ahead\<close>:
  \<open>if self.matcher: assert self.matcher.accept_token(new_token)\<close> and
  \<open>self.is_initial_prompt = False\<close>. A failed assertion leaves the flag as it was,
  and the matcher in the state \<open>accept_token\<close> left it in. Assertions are taken to be
  enabled (the interpreter does not run with \<open>-O\<close>).
\<close>

definition accept_new_token ::
  "('m, 'lp) collaborators \<Rightarrow> ('m, 'lp, 'z) TextContext_scheme \<Rightarrow> int
     \<Rightarrow> (unit, ('m, 'lp, 'z) TextContext_scheme) outcome" where
  "accept_new_token E c new_token =
     (case matcher c of
        None \<Rightarrow> (Inr (), c\<lparr>is_initial_prompt := False\<rparr>)
      | Some m \<Rightarrow>
          if matcher_truth E m then
            (let (ok, m') = accept_token E m new_token;
                 c1 = c\<lparr>matcher := Some m'\<rparr>
             in if ok then (Inr (), c1\<lparr>is_initial_prompt := False\<rparr>)
                else (Inl AssertionError, c1))
          else (Inr (), c\<lparr>is_initial_prompt := False\<rparr>))"

text \<open>
  The assignment \<open>self.tokens[self._active_idx] = new_token\<close> of \<open>update\<close> and
  \<open>jump_ahead\<close> resolves the index first (IndexError), then converts the token to the
  array's dtype (OverflowError), and only then stores it.
\<close>

text \<open>
  The dictionary of log probabilities after \<open>if log_probabilities:
  self._log_probabilities_data[self._active_idx] = log_probabilities\<close>, the form the
  lemmas below state the write in.
\<close>

definition ledger_put ::
  "('m, 'lp) collaborators \<Rightarrow> (int \<Rightarrow> 'lp option) \<Rightarrow> int \<Rightarrow> 'lp option \<Rightarrow> int \<Rightarrow> 'lp option" where
  "ledger_put E f a lp =
     (case lp of None \<Rightarrow> f | Some v \<Rightarrow> if logprobs_truth E v then f(a \<mapsto> v) else f)"

definition update ::
  "('m, 'lp) collaborators \<Rightarrow> ('m, 'lp, 'z) TextContext_scheme \<Rightarrow> int \<Rightarrow> 'lp option \<Rightarrow> bool
     \<Rightarrow> (unit, ('m, 'lp, 'z) TextContext_scheme) outcome" where
  "update E c new_token lp is_eos =
     (if active_idx c < end_idx c then
        (Inr (), c\<lparr>start_idx := active_idx c, active_idx := end_idx c\<rparr>)
      else
        (case upsize c of
           (Inl e, c1) \<Rightarrow> (Inl e, c1)
         | (Inr _, c1) \<Rightarrow>
             (case np_index (tokens c1) (active_idx c1) of
                Inl e \<Rightarrow> (Inl e, c1)
              | Inr k \<Rightarrow>
                  if \<not> dtype_fits (tokens_dtype c1) new_token then (Inl OverflowError, c1)
                  else
                  (let c2 = c1\<lparr>tokens := (tokens c1)[k := new_token]\<rparr>;
                       c3 = (case lp of
                               None \<Rightarrow> c2
                             | Some l \<Rightarrow>
                                 if logprobs_truth E l
                                 then c2\<lparr>log_probabilities_data :=
                                           (log_probabilities_data c2)(active_idx c2 \<mapsto> l)\<rparr>
                                 else c2);
                       c4 = c3\<lparr>start_idx := active_idx c3\<rparr>;
                       c5 = c4\<lparr>active_idx := active_idx c4 + 1\<rparr>;
                       c6 = c5\<lparr>end_idx := end_idx c5 + 1\<rparr>;
                       c7 = (if \<not> is_eos
                             then c6\<lparr>completion_end_idx := completion_end_idx c6 + 1\<rparr>
                             else c6)
                   in accept_new_token E c7 new_token))))"

definition jump_ahead ::
  "('m, 'lp) collaborators \<Rightarrow> ('m, 'lp, 'z) TextContext_scheme \<Rightarrow> int
     \<Rightarrow> (unit, ('m, 'lp, 'z) TextContext_scheme) outcome" where
  "jump_ahead E c new_token =
     (case upsize c of
        (Inl e, c1) \<Rightarrow> (Inl e, c1)
      | (Inr _, c1) \<Rightarrow>
          (case np_index (tokens c1) (active_idx c1) of
             Inl e \<Rightarrow> (Inl e, c1)
           | Inr k \<Rightarrow>
               if \<not> dtype_fits (tokens_dtype c1) new_token then (Inl OverflowError, c1)
               else
               (let c2 = c1\<lparr>tokens := (tokens c1)[k := new_token]\<rparr>;
                    c3 = c2\<lparr>active_idx := active_idx c2 + 1\<rparr>;
                    c4 = c3\<lparr>end_idx := end_idx c3 + 1\<rparr>;
                    c5 = c4\<lparr>completion_end_idx := completion_end_idx c4 + 1\<rparr>
                in accept_new_token E c5 new_token)))"

definition reset :: "('m, 'lp, 'z) TextContext_scheme \<Rightarrow> ('m, 'lp, 'z) TextContext_scheme" where
  "reset c = c\<lparr>start_idx := 0, is_initial_prompt := True\<rparr>"

text \<open>
  The loop of \<open>outstanding_completion_tokens\<close> over \<open>range(completion_start_idx,
  completion_end_idx)\<close>: each round reads the token, then pops the position from the
  dictionary of log probabilities. A read out of range raises IndexError and leaves the
  entries popped so far removed.
\<close>

fun drain_loop ::
  "int list \<Rightarrow> ('m, 'lp, 'z) TextContext_scheme \<Rightarrow> (int \<times> 'lp option) list
     \<Rightarrow> ((int \<times> 'lp option) list, ('m, 'lp, 'z) TextContext_scheme) outcome" where
  "drain_loop [] c res = (Inr res, c)"
| "drain_loop (token_idx # rest) c res =
     (case np_index (tokens c) token_idx of
        Inl e \<Rightarrow> (Inl e, c)
      | Inr k \<Rightarrow>
          drain_loop rest
            (c\<lparr>log_probabilities_data := (log_probabilities_data c)(token_idx := None)\<rparr>)
            (res @ [(tokens c ! k, log_probabilities_data c token_idx)]))"

definition outstanding_completion_tokens ::
  "('m, 'lp, 'z) TextContext_scheme
     \<Rightarrow> ((int \<times> 'lp option) list, ('m, 'lp, 'z) TextContext_scheme) outcome" where
  "outstanding_completion_tokens c =
     (case drain_loop [completion_start_idx c..completion_end_idx c - 1] c [] of
        (Inl e, c1) \<Rightarrow> (Inl e, c1)
      | (Inr res, c1) \<Rightarrow> (Inr res, c1\<lparr>completion_start_idx := completion_end_idx c1\<rparr>))"

subsection \<open>TextAndVisionContext\<close>

record ('m, 'lp, 'px, 'a) TextAndVisionContext = "('m, 'lp) TextContext" +
  pixel_values :: "'px list"
  extra_model_args :: "string \<Rightarrow> 'a option"

definition TextAndVisionContext_init ::
  "int \<Rightarrow> string + int list \<Rightarrow> int option \<Rightarrow> ndarray \<Rightarrow> 'px list \<Rightarrow> (string \<Rightarrow> 'a option)
     \<Rightarrow> int \<Rightarrow> bool \<Rightarrow> string option \<Rightarrow> error + ('m, 'lp, 'px, 'a) TextAndVisionContext" where
  "TextAndVisionContext_init cid pr ml toks pv args lps echo js =
     (case TextContext_init cid pr ml toks lps echo js of
        Inl e \<Rightarrow> Inl e
      | Inr c \<Rightarrow>
          Inr (TextContext.extend c
                 \<lparr>pixel_values = pv, extra_model_args = args\<rparr>))"

definition vision_update ::
  "('m, 'lp) collaborators \<Rightarrow> ('m, 'lp, 'px, 'a, 'z) TextAndVisionContext_scheme \<Rightarrow> int
     \<Rightarrow> 'lp option \<Rightarrow> bool
     \<Rightarrow> (unit, ('m, 'lp, 'px, 'a, 'z) TextAndVisionContext_scheme) outcome" where
  "vision_update E c new_token lp is_eos =
     (case update E c new_token lp is_eos of
        (Inl e, c1) \<Rightarrow> (Inl e, c1)
      | (Inr _, c1) \<Rightarrow> (Inr (), c1\<lparr>pixel_values := []\<rparr>))"

subsection \<open>Sequences of calls\<close>

text \<open>
  The public methods a scheduler calls on a context, with their arguments. \<open>call\<close>
  runs one of them; a method that returns None is given the empty list as its value,
  so that every call has an outcome of one type.
\<close>

datatype ('m, 'lp) op =
    Update int "'lp option" bool
  | Jump_ahead int
  | Bump_token_indices "int option" "int option" "int option"
  | Reset
  | Outstanding_completion_tokens
  | Set_matcher 'm

definition no_value :: "(unit, 's) outcome \<Rightarrow> ('b list, 's) outcome" where
  "no_value r = (case r of (Inl e, c) \<Rightarrow> (Inl e, c) | (Inr _, c) \<Rightarrow> (Inr [], c))"

fun call ::
  "('m, 'lp) collaborators \<Rightarrow> ('m, 'lp, 'z) TextContext_scheme \<Rightarrow> ('m, 'lp) op
     \<Rightarrow> ((int \<times> 'lp option) list, ('m, 'lp, 'z) TextContext_scheme) outcome" where
  "call E c (Update t lp is_eos) = no_value (update E c t lp is_eos)"
| "call E c (Jump_ahead t) = no_value (jump_ahead E c t)"
| "call E c (Bump_token_indices ds da de) = no_value (bump_token_indices c ds da de)"
| "call E c Reset = (Inr [], reset c)"
| "call E c Outstanding_completion_tokens = outstanding_completion_tokens c"
| "call E c (Set_matcher m) = (Inr [], set_matcher c m)"

text \<open>The context after a sequence of calls; a call that raises does not end the sequence.\<close>

fun run ::
  "('m, 'lp) collaborators \<Rightarrow> ('m, 'lp, 'z) TextContext_scheme \<Rightarrow> ('m, 'lp) op list
     \<Rightarrow> ('m, 'lp, 'z) TextContext_scheme" where
  "run E c [] = c"
| "run E c (x # xs) = run E (snd (call E c x)) xs"

text \<open>
  The buffer positions a call returns tokens of: the range
  \<open>[completion_start_idx, completion_end_idx)\<close> for a call of
  \<open>outstanding_completion_tokens\<close> that returns, none for any other call.
\<close>

definition returned_positions ::
  "('m, 'lp, 'z) TextContext_scheme \<Rightarrow> ('m, 'lp) op \<Rightarrow> error + 'b \<Rightarrow> int list" where
  "returned_positions c x r =
     (case (x, r) of
        (Outstanding_completion_tokens, Inr _) \<Rightarrow>
          [completion_start_idx c..completion_end_idx c - 1]
      | _ \<Rightarrow> [])"

fun drained ::
  "('m, 'lp) collaborators \<Rightarrow> ('m, 'lp, 'z) TextContext_scheme \<Rightarrow> ('m, 'lp) op list
     \<Rightarrow> int list" where
  "drained E c [] = []"
| "drained E c (x # xs) =
     returned_positions c x (fst (call E c x)) @ drained E (snd (call E c x)) xs"

text \<open>The same for a TextAndVisionContext, whose \<open>update\<close> is overridden.\<close>

fun vision_call ::
  "('m, 'lp) collaborators \<Rightarrow> ('m, 'lp, 'px, 'a, 'z) TextAndVisionContext_scheme
     \<Rightarrow> ('m, 'lp) op
     \<Rightarrow> ((int \<times> 'lp option) list, ('m, 'lp, 'px, 'a, 'z) TextAndVisionContext_scheme) outcome"
  where
  "vision_call E c (Update t lp is_eos) = no_value (vision_update E c t lp is_eos)"
| "vision_call E c x = call E c x"

fun vision_run ::
  "('m, 'lp) collaborators \<Rightarrow> ('m, 'lp, 'px, 'a, 'z) TextAndVisionContext_scheme
     \<Rightarrow> ('m, 'lp) op list \<Rightarrow> ('m, 'lp, 'px, 'a, 'z) TextAndVisionContext_scheme" where
  "vision_run E c [] = c"
| "vision_run E c (x # xs) = vision_run E (snd (vision_call E c x)) xs"

subsection \<open>Invariants\<close>

text \<open>
  The invariants of the index window and of the completion window, and the agreement
  of \<open>self.size\<close> with the length of the array.
\<close>

definition window_invariant :: "('m, 'lp, 'z) TextContext_scheme \<Rightarrow> bool" where
  "window_invariant c \<longleftrightarrow>
     0 \<le> start_idx c \<and> start_idx c \<le> active_idx c \<and> active_idx c \<le> end_idx c \<and>
     end_idx c \<le> size_cap c \<and> size_cap c mod CHUNK_SIZE = 0 \<and>
     completion_start_idx c \<le> completion_end_idx c \<and> completion_end_idx c \<le> end_idx c"

definition sized :: "('m, 'lp, 'z) TextContext_scheme \<Rightarrow> bool" where
  "sized c \<longleftrightarrow> size_cap c = int (length (tokens c))"

text \<open>
  A call of \<open>bump_token_indices\<close> that moves \<open>start_idx\<close> forwards or not at all and
  leaves \<open>end_idx\<close> where it is; any call of another method.
\<close>

fun forward_bump :: "('m, 'lp) op \<Rightarrow> bool" where
  "forward_bump (Bump_token_indices ds da de) = (0 \<le> or_zero ds \<and> or_zero de = 0)"
| "forward_bump _ = True"

text \<open>A call that cannot extend the completion window.\<close>

fun keeps_completion_end :: "('m, 'lp) op \<Rightarrow> bool" where
  "keeps_completion_end (Update t lp is_eos) = is_eos"
| "keeps_completion_end (Jump_ahead t) = False"
| "keeps_completion_end _ = True"

text \<open>Collaborators and contexts for the examples: a matcher that accepts every token.\<close>

definition accept_all :: "(unit, nat) collaborators" where
  "accept_all =
     \<lparr>accept_token = (\<lambda>m t. (True, m)), matcher_truth = (\<lambda>m. True),
      logprobs_truth = (\<lambda>l. True)\<rparr>"

definition prompt3 :: "(unit, nat) TextContext" where
  "prompt3 =
     \<lparr>cache_seq_id = 0, prompt = Inr [1, 2, 3], max_length = None, size_cap = 128,
      tokens = [1, 2, 3] @ replicate 125 0, tokens_dtype = Int64, active_idx = 3,
      start_idx = 0, end_idx = 3,
      completion_start_idx = 3, completion_end_idx = 3, log_probabilities = 0,
      log_probabilities_echo = False, log_probabilities_data = Map.empty,
      matcher = None, json_schema = None, is_initial_prompt = True\<rparr>"

text \<open>The same prompt in the middle of a chunked prefill: one token is still to be fed.\<close>

definition prefill3 :: "(unit, nat) TextContext" where
  "prefill3 = prompt3\<lparr>active_idx := 2\<rparr>"

text \<open>The prompt after one generated token, scored with the log-probability record 7.\<close>

definition generated3 :: "(unit, nat) TextContext" where
  "generated3 =
     prompt3\<lparr>tokens := [1, 2, 3, 5] @ replicate 124 0, active_idx := 4, start_idx := 3,
       end_idx := 4, completion_end_idx := 4,
       log_probabilities_data := [3 \<mapsto> 7], is_initial_prompt := False\<rparr>"

text \<open>The prompt after an end-of-sequence token 5, unscored.\<close>

definition eos3 :: "(unit, nat) TextContext" where
  "eos3 =
     prompt3\<lparr>tokens := [1, 2, 3, 5] @ replicate 124 0, active_idx := 4, start_idx := 3,
       end_idx := 4, is_initial_prompt := False\<rparr>"

text \<open>The prompt with one image attached.\<close>

definition vision3 :: "(unit, nat, nat, nat) TextAndVisionContext" where
  "vision3 = TextContext.extend prompt3 \<lparr>pixel_values = [42], extra_model_args = Map.empty\<rparr>"

text \<open>
  The prompt after the scheduler moved \<open>active_idx\<close> and \<open>end_idx\<close> forwards by 300,
  beyond the buffer.
\<close>

definition beyond3 :: "(unit, nat) TextContext" where
  "beyond3 = prompt3\<lparr>active_idx := 303, end_idx := 303\<rparr>"

text \<open>
  A prompt of 127 tokens, and the same context after the scheduler moved \<open>active_idx\<close>
  and \<open>end_idx\<close> back by one and two scored tokens, 8 and 9, were generated: the
  completion window \<open>[127, 129)\<close> then reaches beyond the array of 128 elements.
\<close>

definition prompt127 :: "(unit, nat) TextContext" where
  "prompt127 =
     \<lparr>cache_seq_id = 0, prompt = Inr (replicate 127 1), max_length = None, size_cap = 128,
      tokens = replicate 127 1 @ replicate 1 0, tokens_dtype = Int64, active_idx = 127,
      start_idx = 0, end_idx = 127, completion_start_idx = 127, completion_end_idx = 127,
      log_probabilities = 0, log_probabilities_echo = False,
      log_probabilities_data = Map.empty, matcher = None, json_schema = None,
      is_initial_prompt = True\<rparr>"

definition overrun127 :: "(unit, nat) TextContext" where
  "overrun127 =
     prompt127\<lparr>tokens := (tokens prompt127)[126 := 8, 127 := 9], active_idx := 128,
       start_idx := 127, end_idx := 128, completion_end_idx := 129,
       log_probabilities_data := [126 \<mapsto> 3, 127 \<mapsto> 2], is_initial_prompt := False\<rparr>"

section \<open>Properties\<close>

subsection \<open>The capacity of a new context\<close>

lemma initial_size_div: "initial_size n = - ((- int n) div 128) * 128"
proof -
  have "real n / 128 = real_of_int (int n) / real_of_int 128"
    by simp
  then have "\<lceil>real n / 128\<rceil> = - ((- int n) div 128)"
    by (simp only: ceiling_divide_eq_div)
  then show ?thesis
    by (simp add: initial_size_def CHUNK_SIZE_def)
qed

lemma initial_size_mod: "initial_size n = int n + (- int n) mod 128"
proof -
  have "(- int n) div 128 * 128 = - int n - (- int n) mod 128"
    by (simp only: minus_mod_eq_div_mult)
  then show ?thesis
    unfolding initial_size_div by simp
qed

lemma initial_size_ge: "int n \<le> initial_size n"
  unfolding initial_size_mod by simp

lemma initial_size_lt: "initial_size n < int n + 128"
  unfolding initial_size_mod by simp

lemma initial_size_chunks: "initial_size n mod CHUNK_SIZE = 0"
  unfolding initial_size_div CHUNK_SIZE_def by simp

lemma initial_size_examples: "initial_size 130 = 256" "initial_size 128 = 128" "initial_size 0 = 0"
  unfolding initial_size_div by simp_all

subsection \<open>bump_token_indices\<close>

text \<open>
  C4. \<open>bump_token_indices\<close> adds each delta to its cursor, an omitted delta counting
  as zero. If the new \<open>start_idx\<close> is not below the new \<open>active_idx\<close>, or the new
  \<open>active_idx\<close> is above the new \<open>end_idx\<close>, it raises ValueError (the
  index-invariant error of this code) and the context is exactly as before the call;
  otherwise the three cursors take their new values and nothing else changes.
\<close>

theorem bump_token_indices_guard:
  fixes c :: "('m, 'lp, 'z) TextContext_scheme"
  shows "bump_token_indices c ds da de =
     (let new_start = start_idx c + (case ds of None \<Rightarrow> 0 | Some d \<Rightarrow> d);
          new_active = active_idx c + (case da of None \<Rightarrow> 0 | Some d \<Rightarrow> d);
          new_end = end_idx c + (case de of None \<Rightarrow> 0 | Some d \<Rightarrow> d)
      in if new_start \<ge> new_active \<or> new_active > new_end then (Inl ValueError, c)
         else (Inr (), c\<lparr>start_idx := new_start, active_idx := new_active, end_idx := new_end\<rparr>))"
proof -
  have z: "\<And>d. or_zero d = (case d of None \<Rightarrow> 0 | Some x \<Rightarrow> x)"
    by (simp add: or_zero_def split: option.splits)
  show ?thesis
    by (simp add: bump_token_indices_def z Let_def add.commute)
qed

subsection \<open>Growing the buffer\<close>

lemma np_resize_grow:
  assumes "0 \<le> n"
  shows "\<exists>t. np_resize a n = Inr t \<and> length t = nat n \<and>
             (\<forall>i. i < length a \<longrightarrow> i < nat n \<longrightarrow> t ! i = a ! i)"
proof (cases "length a = 0 \<or> n = 0")
  case True
  with assms show ?thesis by (auto simp: np_resize_def)
next
  case False
  define l where "l = int (length a)"
  define r where "r = - ((- n) div l)"
  have lpos: "0 < l" using False by (simp add: l_def)
  have "(- n) div l * l = - n - (- n) mod l"
    by (simp only: minus_mod_eq_div_mult)
  then have rl: "r * l = n + (- n) mod l"
    by (simp add: r_def)
  have "0 \<le> (- n) mod l" using lpos by simp
  with rl have ge: "n \<le> r * l" by simp
  have npos: "0 < n" using False assms by simp
  have rpos: "0 < r"
  proof (rule ccontr)
    assume "\<not> 0 < r"
    then have "r * l \<le> 0" using lpos by (simp add: mult_le_0_iff)
    with ge npos show False by simp
  qed
  then obtain k where k: "nat r = Suc k" by (cases "nat r") auto
  have len: "length (concat (replicate (nat r) a)) = nat r * length a"
    by (induction "nat r") (simp_all add: length_concat sum_list_replicate)
  have "int (nat r * length a) = r * l" using rpos by (simp add: l_def)
  with ge have big: "nat n \<le> nat r * length a" by linarith
  have res: "np_resize a n = Inr (take (nat n) (concat (replicate (nat r) a)))"
    using False assms by (simp add: np_resize_def Let_def r_def l_def)
  have pre: "\<And>i. i < length a \<Longrightarrow> concat (replicate (nat r) a) ! i = a ! i"
    by (simp add: k nth_append)
  show ?thesis
    using res len big pre by (auto simp: min_def)
qed

lemma upsize_other:
  "\<exists>s t. snd (upsize c) = c\<lparr>size_cap := s, tokens := t\<rparr>"
proof (cases "end_idx c \<ge> size_cap c")
  case False
  then have "snd (upsize c) = c\<lparr>size_cap := size_cap c, tokens := tokens c\<rparr>"
    by (simp add: upsize_def)
  then show ?thesis by blast
next
  case True
  show ?thesis
  proof (cases "np_resize (tokens c) (size_cap c + CHUNK_SIZE)")
    case (Inl e)
    with True have "snd (upsize c) = c\<lparr>size_cap := size_cap c + CHUNK_SIZE, tokens := tokens c\<rparr>"
      by (simp add: upsize_def Let_def)
    then show ?thesis by blast
  next
    case (Inr t)
    with True have "snd (upsize c) = c\<lparr>size_cap := size_cap c + CHUNK_SIZE, tokens := t\<rparr>"
      by (simp add: upsize_def Let_def)
    then show ?thesis by blast
  qed
qed

lemma upsize_size_cap:
  "size_cap (snd (upsize c)) =
     (if end_idx c \<ge> size_cap c then size_cap c + CHUNK_SIZE else size_cap c)"
  by (simp add: upsize_def Let_def split: sum.splits)

lemma upsize_sized:
  assumes "sized c"
  shows "fst (upsize c) = Inr () \<and> sized (snd (upsize c)) \<and>
         length (tokens c) \<le> length (tokens (snd (upsize c))) \<and>
         (\<forall>i. i < length (tokens c) \<longrightarrow> tokens (snd (upsize c)) ! i = tokens c ! i)"
proof (cases "end_idx c \<ge> size_cap c")
  case False
  with assms show ?thesis by (simp add: upsize_def)
next
  case True
  have "0 \<le> size_cap c + CHUNK_SIZE"
    using assms by (simp add: sized_def CHUNK_SIZE_def)
  from np_resize_grow [OF this, of "tokens c"] 
  obtain t where t: "np_resize (tokens c) (size_cap c + CHUNK_SIZE) = Inr t"
      "length t = nat (size_cap c + CHUNK_SIZE)"
      "\<forall>i. i < length (tokens c) \<longrightarrow> i < nat (size_cap c + CHUNK_SIZE) \<longrightarrow> t ! i = tokens c ! i"
    by blast
  have up: "upsize c = (Inr (), c\<lparr>size_cap := size_cap c + CHUNK_SIZE, tokens := t\<rparr>)"
    using True t(1) by (simp add: upsize_def Let_def)
  show ?thesis
    using assms t(2,3) unfolding up by (simp add: sized_def CHUNK_SIZE_def)
qed

subsection \<open>Feeding the matcher\<close>

lemma accept_new_token_other:
  "\<exists>m b. snd (accept_new_token E c t) = c\<lparr>matcher := m, is_initial_prompt := b\<rparr>"
proof (cases "matcher c")
  case None
  then have "snd (accept_new_token E c t) = c\<lparr>matcher := matcher c, is_initial_prompt := False\<rparr>"
    by (simp add: accept_new_token_def)
  then show ?thesis by blast
next
  case (Some m)
  show ?thesis
  proof (cases "matcher_truth E m")
    case False
    with Some have "snd (accept_new_token E c t) = c\<lparr>matcher := matcher c, is_initial_prompt := False\<rparr>"
      by (simp add: accept_new_token_def)
    then show ?thesis by blast
  next
    case True
    obtain ok m' where a: "accept_token E m t = (ok, m')" by (cases "accept_token E m t")
    show ?thesis
    proof (cases ok)
      case True
      with Some \<open>matcher_truth E m\<close> a
      have "snd (accept_new_token E c t) = c\<lparr>matcher := Some m', is_initial_prompt := False\<rparr>"
        by (simp add: accept_new_token_def)
      then show ?thesis by blast
    next
      case False
      with Some \<open>matcher_truth E m\<close> a
      have "snd (accept_new_token E c t) = c\<lparr>matcher := Some m', is_initial_prompt := is_initial_prompt c\<rparr>"
        by (simp add: accept_new_token_def)
      then show ?thesis by blast
    qed
  qed
qed

lemma accept_new_token_error:
  "fst (accept_new_token E c t) = Inr () \<or> fst (accept_new_token E c t) = Inl AssertionError"
  by (simp add: accept_new_token_def Let_def split: option.splits prod.splits)

lemma accept_new_token_ok:
  "fst (accept_new_token E c t) = Inr () \<Longrightarrow> \<not> is_initial_prompt (snd (accept_new_token E c t))"
  by (simp add: accept_new_token_def Let_def split: option.splits prod.splits if_splits)

lemma upsize_fields:
  "start_idx (snd (upsize c)) = start_idx c"
  "active_idx (snd (upsize c)) = active_idx c"
  "end_idx (snd (upsize c)) = end_idx c"
  "completion_start_idx (snd (upsize c)) = completion_start_idx c"
  "completion_end_idx (snd (upsize c)) = completion_end_idx c"
  "log_probabilities_data (snd (upsize c)) = log_probabilities_data c"
  "matcher (snd (upsize c)) = matcher c"
  "is_initial_prompt (snd (upsize c)) = is_initial_prompt c"
  "tokens_dtype (snd (upsize c)) = tokens_dtype c"
  "TextContext.more (snd (upsize c)) = TextContext.more c"
proof -
  obtain s t where "snd (upsize c) = c\<lparr>size_cap := s, tokens := t\<rparr>"
    using upsize_other by blast
  then show
    "start_idx (snd (upsize c)) = start_idx c"
    "active_idx (snd (upsize c)) = active_idx c"
    "end_idx (snd (upsize c)) = end_idx c"
    "completion_start_idx (snd (upsize c)) = completion_start_idx c"
    "completion_end_idx (snd (upsize c)) = completion_end_idx c"
    "log_probabilities_data (snd (upsize c)) = log_probabilities_data c"
    "matcher (snd (upsize c)) = matcher c"
    "is_initial_prompt (snd (upsize c)) = is_initial_prompt c"
    "tokens_dtype (snd (upsize c)) = tokens_dtype c"
    "TextContext.more (snd (upsize c)) = TextContext.more c"
    by simp_all
qed

lemma accept_new_token_fields:
  "start_idx (snd (accept_new_token E c t)) = start_idx c"
  "active_idx (snd (accept_new_token E c t)) = active_idx c"
  "end_idx (snd (accept_new_token E c t)) = end_idx c"
  "completion_start_idx (snd (accept_new_token E c t)) = completion_start_idx c"
  "completion_end_idx (snd (accept_new_token E c t)) = completion_end_idx c"
  "log_probabilities_data (snd (accept_new_token E c t)) = log_probabilities_data c"
  "size_cap (snd (accept_new_token E c t)) = size_cap c"
  "tokens (snd (accept_new_token E c t)) = tokens c"
  "TextContext.more (snd (accept_new_token E c t)) = TextContext.more c"
proof -
  obtain m b where "snd (accept_new_token E c t) = c\<lparr>matcher := m, is_initial_prompt := b\<rparr>"
    using accept_new_token_other by blast
  then show
    "start_idx (snd (accept_new_token E c t)) = start_idx c"
    "active_idx (snd (accept_new_token E c t)) = active_idx c"
    "end_idx (snd (accept_new_token E c t)) = end_idx c"
    "completion_start_idx (snd (accept_new_token E c t)) = completion_start_idx c"
    "completion_end_idx (snd (accept_new_token E c t)) = completion_end_idx c"
    "log_probabilities_data (snd (accept_new_token E c t)) = log_probabilities_data c"
    "size_cap (snd (accept_new_token E c t)) = size_cap c"
    "tokens (snd (accept_new_token E c t)) = tokens c"
    "TextContext.more (snd (accept_new_token E c t)) = TextContext.more c"
    by simp_all
qed

subsection \<open>jump_ahead and update\<close>

text \<open>The capacity after \<open>_upsize\<close>.\<close>

lemma write_index:
  assumes "sized c" "0 \<le> a"
    "a < (if size_cap c \<le> end_idx c then size_cap c + 128 else size_cap c)"
  shows "np_index (tokens (snd (upsize c))) a = Inr (nat a)"
    and "nat a < length (tokens (snd (upsize c)))"
proof -
  have s: "sized (snd (upsize c))" using upsize_sized [OF assms(1)] by simp
  have "a < size_cap (snd (upsize c))"
    using assms by (simp add: upsize_size_cap CHUNK_SIZE_def split: if_splits)
  with s have lt: "a < int (length (tokens (snd (upsize c))))"
    by (simp add: sized_def)
  with assms(2) show "np_index (tokens (snd (upsize c))) a = Inr (nat a)"
    by (simp add: np_index_def)
  from lt assms(2) show "nat a < length (tokens (snd (upsize c)))"
    by linarith
qed

text \<open>The state jump_ahead hands to the matcher when the write succeeds.\<close>

lemma write_index_beyond:
  assumes "sized c"
    "(if size_cap c \<le> end_idx c then size_cap c + 128 else size_cap c) \<le> a"
  shows "np_index (tokens (snd (upsize c))) a = Inl IndexError"
proof -
  have s: "sized (snd (upsize c))" using upsize_sized [OF assms(1)] by simp
  have "size_cap (snd (upsize c)) \<le> a"
    using assms by (simp add: upsize_size_cap CHUNK_SIZE_def split: if_splits)
  with s have "int (length (tokens (snd (upsize c)))) \<le> a"
    by (simp add: sized_def)
  then show ?thesis by (simp add: np_index_def)
qed

lemma within_buffer:
  "a \<le> end_idx c \<Longrightarrow> end_idx c \<le> size_cap c \<Longrightarrow>
     a < (if size_cap c \<le> end_idx c then size_cap c + 128 else size_cap c)"
  by simp

lemma jump_ahead_sized:
  assumes "sized c" "0 \<le> active_idx c"
    "active_idx c < (if size_cap c \<le> end_idx c then size_cap c + 128 else size_cap c)"
    "dtype_fits (tokens_dtype c) t"
  shows "jump_ahead E c t =
           accept_new_token E
             ((snd (upsize c))\<lparr>tokens := (tokens (snd (upsize c)))[nat (active_idx c) := t],
                active_idx := active_idx c + 1, end_idx := end_idx c + 1,
                completion_end_idx := completion_end_idx c + 1\<rparr>) t"
proof -
  have u: "upsize c = (Inr (), snd (upsize c))"
    using upsize_sized [OF assms(1)] by (simp add: prod_eq_iff)
  have i: "np_index (tokens (snd (upsize c))) (active_idx c) = Inr (nat (active_idx c))"
    using write_index(1) [OF assms(1,2,3)] by simp
  have "jump_ahead E c t =
          (case (Inr (), snd (upsize c)) of
            (Inl e, c1) \<Rightarrow> (Inl e, c1)
          | (Inr _, c1) \<Rightarrow>
              (case np_index (tokens c1) (active_idx c1) of
                 Inl e \<Rightarrow> (Inl e, c1)
               | Inr k \<Rightarrow>
                   if \<not> dtype_fits (tokens_dtype c1) t then (Inl OverflowError, c1)
                   else
                   (let c2 = c1\<lparr>tokens := (tokens c1)[k := t]\<rparr>;
                        c3 = c2\<lparr>active_idx := active_idx c2 + 1\<rparr>;
                        c4 = c3\<lparr>end_idx := end_idx c3 + 1\<rparr>;
                        c5 = c4\<lparr>completion_end_idx := completion_end_idx c4 + 1\<rparr>
                    in accept_new_token E c5 t)))"
    unfolding jump_ahead_def using u by simp
  then show ?thesis
    using assms(4) by (simp add: i Let_def upsize_fields)
qed

text \<open>When the write raises, the call ends in the state \<open>_upsize\<close> left.\<close>

lemma jump_ahead_raises:
  assumes "np_index (tokens (snd (upsize c))) (active_idx c) = Inl e \<or>
           (\<exists>k. np_index (tokens (snd (upsize c))) (active_idx c) = Inr k) \<and>
           \<not> dtype_fits (tokens_dtype c) t \<and> e = OverflowError"
    and "fst (upsize c) = Inr ()"
  shows "jump_ahead E c t = (Inl e, snd (upsize c))"
proof -
  have u: "upsize c = (Inr (), snd (upsize c))"
    using assms(2) by (simp add: prod_eq_iff)
  have "jump_ahead E c t =
          (case (Inr (), snd (upsize c)) of
            (Inl e, c1) \<Rightarrow> (Inl e, c1)
          | (Inr _, c1) \<Rightarrow>
              (case np_index (tokens c1) (active_idx c1) of
                 Inl e \<Rightarrow> (Inl e, c1)
               | Inr k \<Rightarrow>
                   if \<not> dtype_fits (tokens_dtype c1) t then (Inl OverflowError, c1)
                   else
                   (let c2 = c1\<lparr>tokens := (tokens c1)[k := t]\<rparr>;
                        c3 = c2\<lparr>active_idx := active_idx c2 + 1\<rparr>;
                        c4 = c3\<lparr>end_idx := end_idx c3 + 1\<rparr>;
                        c5 = c4\<lparr>completion_end_idx := completion_end_idx c4 + 1\<rparr>
                    in accept_new_token E c5 t)))"
    unfolding jump_ahead_def using u by simp
  then show ?thesis
    using assms(1) by (auto simp: upsize_fields)
qed

lemma upsize_shape:
  "\<exists>s tk. (s = size_cap c \<or> s = size_cap c + CHUNK_SIZE) \<and>
          snd (upsize c) = c\<lparr>size_cap := s, tokens := tk\<rparr>"
proof -
  obtain s tk where u: "snd (upsize c) = c\<lparr>size_cap := s, tokens := tk\<rparr>"
    using upsize_other by blast
  then have "size_cap (snd (upsize c)) = s" by simp
  then have "s = size_cap c \<or> s = size_cap c + CHUNK_SIZE"
    by (simp add: upsize_size_cap split: if_splits)
  with u show ?thesis by blast
qed

lemma jump_ahead_shape:
  "\<exists>d s tk m b. (d = 0 \<or> d = 1) \<and> (s = size_cap c \<or> s = size_cap c + CHUNK_SIZE) \<and>
     snd (jump_ahead E c t) =
       c\<lparr>size_cap := s, tokens := tk, active_idx := active_idx c + d,
         end_idx := end_idx c + d, completion_end_idx := completion_end_idx c + d,
         matcher := m, is_initial_prompt := b\<rparr>"
proof -
  obtain s tk where s: "s = size_cap c \<or> s = size_cap c + CHUNK_SIZE"
    and u: "snd (upsize c) = c\<lparr>size_cap := s, tokens := tk\<rparr>"
    using upsize_shape by blast
  obtain r where r: "upsize c = (r, c\<lparr>size_cap := s, tokens := tk\<rparr>)"
    using u by (cases "upsize c") simp
  have stay: "snd (jump_ahead E c t) = c\<lparr>size_cap := s, tokens := tk\<rparr> \<Longrightarrow> ?thesis"
  proof -
    assume "snd (jump_ahead E c t) = c\<lparr>size_cap := s, tokens := tk\<rparr>"
    then have "snd (jump_ahead E c t) =
      c\<lparr>size_cap := s, tokens := tk, active_idx := active_idx c + 0,
         end_idx := end_idx c + 0, completion_end_idx := completion_end_idx c + 0,
         matcher := matcher c, is_initial_prompt := is_initial_prompt c\<rparr>"
      by simp
    with s show ?thesis by blast
  qed
  show ?thesis
  proof (cases r)
    case (Inl e)
    then have "snd (jump_ahead E c t) = c\<lparr>size_cap := s, tokens := tk\<rparr>"
      by (simp add: jump_ahead_def r)
    then show ?thesis by (rule stay)
  next
    case (Inr x)
    show ?thesis
    proof (cases "np_index tk (active_idx c)")
      case (Inl e)
      with Inr have "snd (jump_ahead E c t) = c\<lparr>size_cap := s, tokens := tk\<rparr>"
        by (simp add: jump_ahead_def r)
      then show ?thesis by (rule stay)
    next
      case (Inr k)
      show ?thesis
      proof (cases "dtype_fits (tokens_dtype c) t")
      case False
      with \<open>r = Inr x\<close> Inr have "snd (jump_ahead E c t) = c\<lparr>size_cap := s, tokens := tk\<rparr>"
        by (simp add: jump_ahead_def r)
      then show ?thesis by (rule stay)
      next
      case True
      define c5 where "c5 = c\<lparr>size_cap := s, tokens := tk[k := t], active_idx := active_idx c + 1,
         end_idx := end_idx c + 1, completion_end_idx := completion_end_idx c + 1\<rparr>"
      have j: "jump_ahead E c t = accept_new_token E c5 t"
        using \<open>r = Inr x\<close> Inr True by (simp add: jump_ahead_def r c5_def Let_def)
      obtain m b where "snd (accept_new_token E c5 t) = c5\<lparr>matcher := m, is_initial_prompt := b\<rparr>"
        using accept_new_token_other by blast
      with j have "snd (jump_ahead E c t) =
        c\<lparr>size_cap := s, tokens := tk[k := t], active_idx := active_idx c + 1,
         end_idx := end_idx c + 1, completion_end_idx := completion_end_idx c + 1,
         matcher := m, is_initial_prompt := b\<rparr>"
        by (simp add: c5_def)
      with s show ?thesis by blast
      qed
    qed
  qed
qed

lemma update_prefill:
  "active_idx c < end_idx c \<Longrightarrow>
     update E c t lp is_eos = (Inr (), c\<lparr>start_idx := active_idx c, active_idx := end_idx c\<rparr>)"
  by (simp add: update_def)

lemma update_generate:
  assumes "\<not> active_idx c < end_idx c"
    and "upsize c = (Inr (), c1)"
    and "np_index (tokens c1) (active_idx c1) = Inr k"
    and "dtype_fits (tokens_dtype c1) t"
  shows "update E c t lp is_eos =
     accept_new_token E
       (c1\<lparr>tokens := (tokens c1)[k := t],
           log_probabilities_data := ledger_put E (log_probabilities_data c1) (active_idx c1) lp,
           start_idx := active_idx c1, active_idx := active_idx c1 + 1,
           end_idx := end_idx c1 + 1,
           completion_end_idx := completion_end_idx c1 + (if is_eos then 0 else 1)\<rparr>) t"
proof (cases is_eos)
  case True
  with assms show ?thesis
    by (cases lp) (simp_all add: update_def Let_def ledger_put_def)
next
  case False
  with assms show ?thesis
    by (cases lp) (simp_all add: update_def Let_def ledger_put_def)
qed

lemma update_shape:
  assumes "\<not> active_idx c < end_idx c"
  shows "\<exists>d s tk l st m b.
     (d = 0 \<and> st = start_idx c \<or> d = 1 \<and> st = active_idx c) \<and>
     (s = size_cap c \<or> s = size_cap c + CHUNK_SIZE) \<and>
     snd (update E c t lp is_eos) =
       c\<lparr>size_cap := s, tokens := tk, log_probabilities_data := l, start_idx := st,
         active_idx := active_idx c + d, end_idx := end_idx c + d,
         completion_end_idx := completion_end_idx c + (if is_eos then 0 else d),
         matcher := m, is_initial_prompt := b\<rparr>"
proof -
  obtain s tk where s: "s = size_cap c \<or> s = size_cap c + CHUNK_SIZE"
    and u: "snd (upsize c) = c\<lparr>size_cap := s, tokens := tk\<rparr>"
    using upsize_shape by blast
  obtain r where r: "upsize c = (r, c\<lparr>size_cap := s, tokens := tk\<rparr>)"
    using u by (cases "upsize c") simp
  have stay: "snd (update E c t lp is_eos) = c\<lparr>size_cap := s, tokens := tk\<rparr> \<Longrightarrow> ?thesis"
  proof -
    assume "snd (update E c t lp is_eos) = c\<lparr>size_cap := s, tokens := tk\<rparr>"
    then have "snd (update E c t lp is_eos) =
      c\<lparr>size_cap := s, tokens := tk, log_probabilities_data := log_probabilities_data c,
         start_idx := start_idx c, active_idx := active_idx c + 0,
         end_idx := end_idx c + 0,
         completion_end_idx := completion_end_idx c + (if is_eos then 0 else 0),
         matcher := matcher c, is_initial_prompt := is_initial_prompt c\<rparr>"
      by simp
    with s show ?thesis by blast
  qed
  show ?thesis
  proof (cases r)
    case (Inl e)
    then have "snd (update E c t lp is_eos) = c\<lparr>size_cap := s, tokens := tk\<rparr>"
      using assms by (simp add: update_def r)
    then show ?thesis by (rule stay)
  next
    case (Inr x)
    show ?thesis
    proof (cases "np_index tk (active_idx c)")
      case (Inl e)
      with Inr have "snd (update E c t lp is_eos) = c\<lparr>size_cap := s, tokens := tk\<rparr>"
        using assms by (simp add: update_def r)
      then show ?thesis by (rule stay)
    next
      case (Inr k)
      show ?thesis
      proof (cases "dtype_fits (tokens_dtype c) t")
      case False
      with \<open>r = Inr x\<close> Inr have "snd (update E c t lp is_eos) = c\<lparr>size_cap := s, tokens := tk\<rparr>"
        using assms by (simp add: update_def r)
      then show ?thesis by (rule stay)
      next
      case True
      define c7 where "c7 = c\<lparr>size_cap := s, tokens := tk[k := t],
         log_probabilities_data := ledger_put E (log_probabilities_data c) (active_idx c) lp,
         start_idx := active_idx c, active_idx := active_idx c + 1,
         end_idx := end_idx c + 1,
         completion_end_idx := completion_end_idx c + (if is_eos then 0 else 1)\<rparr>"
      have r': "upsize c = (Inr (), c\<lparr>size_cap := s, tokens := tk\<rparr>)"
        using r \<open>r = Inr x\<close> by simp
      have j: "update E c t lp is_eos = accept_new_token E c7 t"
        using update_generate [OF assms r', of k t E lp is_eos] Inr True
        by (simp add: c7_def)
      obtain m b where "snd (accept_new_token E c7 t) = c7\<lparr>matcher := m, is_initial_prompt := b\<rparr>"
        using accept_new_token_other by blast
      with j have "snd (update E c t lp is_eos) =
        c\<lparr>size_cap := s, tokens := tk[k := t],
         log_probabilities_data := ledger_put E (log_probabilities_data c) (active_idx c) lp,
         start_idx := active_idx c, active_idx := active_idx c + 1,
         end_idx := end_idx c + 1,
         completion_end_idx := completion_end_idx c + (if is_eos then 0 else 1),
         matcher := m, is_initial_prompt := b\<rparr>"
        by (simp add: c7_def)
      then show ?thesis using s by blast
      qed
    qed
  qed
qed

lemma update_sized:
  assumes "sized c" "0 \<le> active_idx c" "active_idx c = end_idx c" "end_idx c \<le> size_cap c"
    and "dtype_fits (tokens_dtype c) t"
  shows "update E c t lp is_eos =
           accept_new_token E
             ((snd (upsize c))\<lparr>tokens := (tokens (snd (upsize c)))[nat (active_idx c) := t],
                log_probabilities_data :=
                  ledger_put E (log_probabilities_data c) (active_idx c) lp,
                start_idx := active_idx c,
                active_idx := active_idx c + 1, end_idx := end_idx c + 1,
                completion_end_idx := completion_end_idx c + (if is_eos then 0 else 1)\<rparr>) t"
proof -
  have u: "upsize c = (Inr (), snd (upsize c))"
    using upsize_sized [OF assms(1)] by (simp add: prod_eq_iff)
  have le: "active_idx c \<le> end_idx c" and ge: "\<not> active_idx c < end_idx c"
    using assms(3) by simp_all
  have i: "np_index (tokens (snd (upsize c))) (active_idx (snd (upsize c))) = Inr (nat (active_idx c))"
    using write_index(1) [OF assms(1,2) within_buffer [OF le assms(4)]]
    by (simp add: upsize_fields)
  have f: "dtype_fits (tokens_dtype (snd (upsize c))) t"
    using assms(5) by (simp add: upsize_fields)
  show ?thesis
    using update_generate [OF ge u i f, of E lp is_eos] by (simp add: upsize_fields)
qed

text \<open>When the write raises, the call ends in the state \<open>_upsize\<close> left.\<close>

lemma update_raises:
  assumes "\<not> active_idx c < end_idx c" "fst (upsize c) = Inr ()"
    and "np_index (tokens (snd (upsize c))) (active_idx c) = Inl e \<or>
           (\<exists>k. np_index (tokens (snd (upsize c))) (active_idx c) = Inr k) \<and>
           \<not> dtype_fits (tokens_dtype c) t \<and> e = OverflowError"
  shows "update E c t lp is_eos = (Inl e, snd (upsize c))"
proof -
  obtain c1 where u: "upsize c = (Inr (), c1)" and c1: "c1 = snd (upsize c)"
    using assms(2) by (cases "upsize c") simp
  have a: "active_idx c1 = active_idx c" "tokens_dtype c1 = tokens_dtype c"
    by (simp_all add: c1 upsize_fields)
  from assms(3) show ?thesis
  proof
    assume "np_index (tokens (snd (upsize c))) (active_idx c) = Inl e"
    then show ?thesis using assms(1) u a by (simp add: update_def c1 [symmetric])
  next
    assume "(\<exists>k. np_index (tokens (snd (upsize c))) (active_idx c) = Inr k) \<and>
           \<not> dtype_fits (tokens_dtype c) t \<and> e = OverflowError"
    then show ?thesis using assms(1) u a by (auto simp: update_def c1 [symmetric])
  qed
qed

subsection \<open>outstanding_completion_tokens\<close>

lemma drain_loop_other:
  "\<exists>l. snd (drain_loop xs c res) = c\<lparr>log_probabilities_data := l\<rparr> \<and>
       (\<forall>k. k \<notin> set xs \<longrightarrow> l k = log_probabilities_data c k)"
proof (induction xs arbitrary: c res)
  case Nil
  have "snd (drain_loop [] c res) = c\<lparr>log_probabilities_data := log_probabilities_data c\<rparr>"
    by simp
  then show ?case by blast
next
  case (Cons i xs)
  show ?case
  proof (cases "np_index (tokens c) i")
    case (Inl e)
    then have "snd (drain_loop (i # xs) c res) = c\<lparr>log_probabilities_data := log_probabilities_data c\<rparr>"
      by simp
    then show ?thesis by blast
  next
    case (Inr k)
    define c1 where "c1 = c\<lparr>log_probabilities_data := (log_probabilities_data c)(i := None)\<rparr>"
    define res1 where "res1 = res @ [(tokens c ! k, log_probabilities_data c i)]"
    have step: "drain_loop (i # xs) c res = drain_loop xs c1 res1"
      using Inr by (simp add: c1_def res1_def)
    obtain l where l: "snd (drain_loop xs c1 res1) = c1\<lparr>log_probabilities_data := l\<rparr>"
      and keep: "\<forall>k. k \<notin> set xs \<longrightarrow> l k = log_probabilities_data c1 k"
      using Cons.IH by blast
    have "snd (drain_loop (i # xs) c res) = c\<lparr>log_probabilities_data := l\<rparr>"
      using step l by (simp add: c1_def)
    moreover have "\<forall>k. k \<notin> set (i # xs) \<longrightarrow> l k = log_probabilities_data c k"
      using keep by (simp add: c1_def)
    ultimately show ?thesis by blast
  qed
qed

lemma drain_loop_popped:
  "fst (drain_loop xs c res) = Inr r \<Longrightarrow> k \<in> set xs \<Longrightarrow>
     log_probabilities_data (snd (drain_loop xs c res)) k = None"
proof (induction xs arbitrary: c res)
  case Nil
  then show ?case by simp
next
  case (Cons i xs)
  show ?case
  proof (cases "np_index (tokens c) i")
    case (Inl e)
    with Cons.prems show ?thesis by simp
  next
    case (Inr j)
    define c1 where "c1 = c\<lparr>log_probabilities_data := (log_probabilities_data c)(i := None)\<rparr>"
    define res1 where "res1 = res @ [(tokens c ! j, log_probabilities_data c i)]"
    have step: "drain_loop (i # xs) c res = drain_loop xs c1 res1"
      using Inr by (simp add: c1_def res1_def)
    show ?thesis
    proof (cases "k \<in> set xs")
      case True
      with Cons.IH [of c1 res1] Cons.prems(1) step show ?thesis by simp
    next
      case False
      with Cons.prems(2) have ki: "k = i" by simp
      obtain l where l: "snd (drain_loop xs c1 res1) = c1\<lparr>log_probabilities_data := l\<rparr>"
        and keep: "\<forall>k. k \<notin> set xs \<longrightarrow> l k = log_probabilities_data c1 k"
        using drain_loop_other by blast
      from keep False have "l k = log_probabilities_data c1 k" by simp
      then show ?thesis using step l ki by (simp add: c1_def)
    qed
  qed
qed

lemma drain_loop_in_range:
  assumes "\<forall>i \<in> set xs. 0 \<le> i \<and> i < int (length (tokens c))" "distinct xs"
  shows "fst (drain_loop xs c res) =
           Inr (res @ map (\<lambda>i. (tokens c ! nat i, log_probabilities_data c i)) xs)"
  using assms
proof (induction xs arbitrary: c res)
  case Nil
  then show ?case by simp
next
  case (Cons i xs)
  define c1 where "c1 = c\<lparr>log_probabilities_data := (log_probabilities_data c)(i := None)\<rparr>"
  define res1 where "res1 = res @ [(tokens c ! nat i, log_probabilities_data c i)]"
  have idx: "np_index (tokens c) i = Inr (nat i)"
    using Cons.prems(1) by (simp add: np_index_def)
  have step: "drain_loop (i # xs) c res = drain_loop xs c1 res1"
    using idx by (simp add: c1_def res1_def)
  have "\<forall>j \<in> set xs. 0 \<le> j \<and> j < int (length (tokens c1))"
    using Cons.prems(1) by (simp add: c1_def)
  moreover have "distinct xs" using Cons.prems(2) by simp
  ultimately have "fst (drain_loop xs c1 res1) =
      Inr (res1 @ map (\<lambda>i. (tokens c1 ! nat i, log_probabilities_data c1 i)) xs)"
    by (rule Cons.IH)
  moreover have "map (\<lambda>j. (tokens c1 ! nat j, log_probabilities_data c1 j)) xs =
      map (\<lambda>j. (tokens c ! nat j, log_probabilities_data c j)) xs"
    using Cons.prems(2) by (auto simp: c1_def)
  ultimately show ?case using step by (simp add: res1_def)
qed

lemma outstanding_other:
  "\<exists>s l. snd (outstanding_completion_tokens c) =
            c\<lparr>completion_start_idx := s, log_probabilities_data := l\<rparr> \<and>
          (s = completion_start_idx c \<or> s = completion_end_idx c) \<and>
          (\<forall>k. \<not> (completion_start_idx c \<le> k \<and> k < completion_end_idx c) \<longrightarrow>
                 l k = log_probabilities_data c k)"
proof -
  define xs where "xs = [completion_start_idx c..completion_end_idx c - 1]"
  obtain l where l: "snd (drain_loop xs c []) = c\<lparr>log_probabilities_data := l\<rparr>"
    and keep: "\<forall>k. k \<notin> set xs \<longrightarrow> l k = log_probabilities_data c k"
    using drain_loop_other by blast
  have keep': "\<forall>k. \<not> (completion_start_idx c \<le> k \<and> k < completion_end_idx c) \<longrightarrow>
                 l k = log_probabilities_data c k"
    using keep by (auto simp: xs_def)
  obtain r where r: "drain_loop xs c [] = (r, c\<lparr>log_probabilities_data := l\<rparr>)"
    using l by (cases "drain_loop xs c []") simp
  show ?thesis
  proof (cases r)
    case (Inl e)
    then have "snd (outstanding_completion_tokens c) =
        c\<lparr>completion_start_idx := completion_start_idx c, log_probabilities_data := l\<rparr>"
      using r by (simp add: outstanding_completion_tokens_def xs_def [symmetric])
    with keep' show ?thesis by blast
  next
    case (Inr res)
    then have "snd (outstanding_completion_tokens c) =
        c\<lparr>completion_start_idx := completion_end_idx c, log_probabilities_data := l\<rparr>"
      using r by (simp add: outstanding_completion_tokens_def xs_def [symmetric])
    with keep' show ?thesis by blast
  qed
qed

lemma outstanding_returns:
  assumes "fst (outstanding_completion_tokens c) = Inr res"
  shows "completion_start_idx (snd (outstanding_completion_tokens c)) = completion_end_idx c"
    and "completion_start_idx c \<le> k \<Longrightarrow> k < completion_end_idx c \<Longrightarrow>
         log_probabilities_data (snd (outstanding_completion_tokens c)) k = None"
proof -
  define xs where "xs = [completion_start_idx c..completion_end_idx c - 1]"
  obtain r c1 where d: "drain_loop xs c [] = (r, c1)" by (cases "drain_loop xs c []")
  have c1: "c1 = snd (drain_loop xs c [])" using d by simp
  have r: "r = Inr res"
    using assms d by (simp add: outstanding_completion_tokens_def xs_def [symmetric] split: sum.splits)
  have o: "snd (outstanding_completion_tokens c) = c1\<lparr>completion_start_idx := completion_end_idx c1\<rparr>"
    using d r by (simp add: outstanding_completion_tokens_def xs_def [symmetric])
  obtain l where l: "c1 = c\<lparr>log_probabilities_data := l\<rparr>"
    using drain_loop_other [of xs c "[]"] c1 by auto
  show "completion_start_idx (snd (outstanding_completion_tokens c)) = completion_end_idx c"
    using o l by simp
  assume "completion_start_idx c \<le> k" "k < completion_end_idx c"
  then have "k \<in> set xs" by (simp add: xs_def)
  moreover have "fst (drain_loop xs c []) = Inr res" using d r by simp
  ultimately have "log_probabilities_data (snd (drain_loop xs c [])) k = None"
    by (rule drain_loop_popped [rotated])
  then show "log_probabilities_data (snd (outstanding_completion_tokens c)) k = None"
    using o c1 by simp
qed

lemma outstanding_in_range:
  assumes "0 \<le> completion_start_idx c" "completion_end_idx c \<le> int (length (tokens c))"
  shows "fst (outstanding_completion_tokens c) =
           Inr (map (\<lambda>i. (tokens c ! nat i, log_probabilities_data c i))
                  [completion_start_idx c..completion_end_idx c - 1])"
proof -
  define xs where "xs = [completion_start_idx c..completion_end_idx c - 1]"
  have "\<forall>i \<in> set xs. 0 \<le> i \<and> i < int (length (tokens c))"
    using assms by (auto simp: xs_def)
  moreover have "distinct xs" by (simp add: xs_def)
  ultimately have "fst (drain_loop xs c []) =
      Inr ([] @ map (\<lambda>i. (tokens c ! nat i, log_probabilities_data c i)) xs)"
    by (rule drain_loop_in_range)
  then obtain c1 where
    "drain_loop xs c [] =
       (Inr (map (\<lambda>i. (tokens c ! nat i, log_probabilities_data c i)) xs), c1)"
    by (cases "drain_loop xs c []") simp
  then show ?thesis
    by (simp add: outstanding_completion_tokens_def xs_def [symmetric])
qed

subsection \<open>Construction, reset and chunked prefill\<close>

lemma py_slice_prefix:
  assumes "0 \<le> j" "j \<le> int (length xs)"
  shows "py_slice xs 0 j = take (nat j) xs"
  using assms by (simp add: py_slice_def slice_bound_def Let_def min_def)

text \<open>
  C8. A context built from a one-dimensional array of any dtype with the elements \<open>p\<close> has active
  length and current length \<open>length p\<close>, the prompt itself as \<open>next_tokens\<close>, and a
  capacity of \<open>\<lceil>length p / 128\<rceil> * 128\<close>, which is also the length of its array: 256 for
  a prompt of 130 tokens, 128 for one of 128.
\<close>

theorem construct_round_trip:
  "\<exists>c. (TextContext_init cid pr ml (array1 d p) lps echo js :: error + ('m, 'lp) TextContext) = Inr c \<and>
        active_length c = int (length p) \<and> current_length c = int (length p) \<and>
        next_tokens c = p \<and>
        size_cap c = \<lceil>real (length p) / 128\<rceil> * 128 \<and>
        int (length (tokens c)) = size_cap c \<and>
        initial_size 130 = 256 \<and> initial_size 128 = 128"
proof -
  define sz where "sz = initial_size (length p)"
  define c :: "('m, 'lp) TextContext" where
    "c = \<lparr>cache_seq_id = cid, prompt = pr, max_length = ml, size_cap = sz,
          tokens = p @ replicate (nat sz - length p) 0, tokens_dtype = d,
          active_idx = int (length p), start_idx = 0, end_idx = int (length p),
          completion_start_idx = int (length p), completion_end_idx = int (length p),
          log_probabilities = lps, log_probabilities_echo = echo,
          log_probabilities_data = Map.empty,
          matcher = None, json_schema = js, is_initial_prompt = True\<rparr>"
  have ge: "int (length p) \<le> sz"
    unfolding sz_def by (rule initial_size_ge)
  have init: "TextContext_init cid pr ml (array1 d p) lps echo js = Inr c"
    using ge by (simp add: TextContext_init_def array1_def ndim_def len_ndarray_def c_def sz_def Let_def)
  have len: "int (length (tokens c)) = size_cap c"
    using ge by (simp add: c_def)
  have nt: "next_tokens c = p"
    using ge by (simp add: next_tokens_def c_def py_slice_prefix)
  have cap: "size_cap c = \<lceil>real (length p) / 128\<rceil> * 128"
    by (simp add: c_def sz_def initial_size_def CHUNK_SIZE_def)
  have "active_length c = int (length p)" "current_length c = int (length p)"
    by (simp_all add: active_length_def current_length_def c_def)
  with init len nt cap initial_size_examples(1,2) show ?thesis
    by blast
qed

text \<open>
  C6, amended. In every state \<open>reset\<close> sets \<open>start_idx\<close> to 0 and
  \<open>is_initial_prompt\<close> to true and leaves \<open>active_idx\<close>, \<open>end_idx\<close>, both completion
  cursors, the capacity and the array as they were; the next active window is then the
  slice \<open>tokens[0:active_idx]\<close>. When \<open>0 \<le> active_idx \<le> end_idx\<close> lie within the
  array, that slice is the positions \<open>[0, active_idx)\<close>, and it is \<open>[0, end_idx)\<close> exactly
  when \<open>active_idx = end_idx\<close>.
\<close>

theorem reset_effect:
  fixes c :: "('m, 'lp, 'z) TextContext_scheme"
  shows "start_idx (reset c) = 0 \<and> is_initial_prompt (reset c) \<and>
         active_idx (reset c) = active_idx c \<and> end_idx (reset c) = end_idx c \<and>
         completion_start_idx (reset c) = completion_start_idx c \<and>
         completion_end_idx (reset c) = completion_end_idx c \<and>
         size_cap (reset c) = size_cap c \<and> tokens (reset c) = tokens c \<and>
         next_tokens (reset c) = py_slice (tokens c) 0 (active_idx c) \<and>
         (0 \<le> active_idx c \<and> active_idx c \<le> end_idx c \<and>
          end_idx c \<le> int (length (tokens c)) \<longrightarrow>
            next_tokens (reset c) = take (nat (active_idx c)) (tokens c) \<and>
            (next_tokens (reset c) = take (nat (end_idx c)) (tokens c)
               \<longleftrightarrow> active_idx c = end_idx c))"
proof -
  have frame: "start_idx (reset c) = 0" "is_initial_prompt (reset c)"
      "active_idx (reset c) = active_idx c" "end_idx (reset c) = end_idx c"
      "completion_start_idx (reset c) = completion_start_idx c"
      "completion_end_idx (reset c) = completion_end_idx c"
      "size_cap (reset c) = size_cap c" "tokens (reset c) = tokens c"
    by (simp_all add: reset_def)
  have sl: "next_tokens (reset c) = py_slice (tokens c) 0 (active_idx c)"
    by (simp add: next_tokens_def reset_def)
  have within: "next_tokens (reset c) = take (nat (active_idx c)) (tokens c) \<and>
            (next_tokens (reset c) = take (nat (end_idx c)) (tokens c)
               \<longleftrightarrow> active_idx c = end_idx c)"
    if h: "0 \<le> active_idx c" "active_idx c \<le> end_idx c"
      "end_idx c \<le> int (length (tokens c))"
  proof -
    have le: "active_idx c \<le> int (length (tokens c))" using h by simp
    have nt: "next_tokens (reset c) = take (nat (active_idx c)) (tokens c)"
      using h(1) le by (simp add: sl py_slice_prefix)
    have "length (take (nat (active_idx c)) (tokens c)) = nat (active_idx c)"
      using le by simp
    moreover have "length (take (nat (end_idx c)) (tokens c)) = nat (end_idx c)"
      using h(3) by simp
    ultimately have "take (nat (active_idx c)) (tokens c) = take (nat (end_idx c)) (tokens c)
        \<longleftrightarrow> active_idx c = end_idx c"
      using h(1,2) by (metis nat_eq_iff2 order_trans)
    with nt show ?thesis by simp
  qed
  from frame sl within show ?thesis by blast
qed

lemma prefill3_reached:
  "bump_token_indices prompt3 None (Some (- 1)) None = (Inr (), prefill3)"
  by (simp add: bump_token_indices_def or_zero_def prompt3_def prefill3_def)

text \<open>
  As the specification states it, the property fails in the middle of a chunked prefill: a prompt of three tokens
  whose \<open>active_idx\<close> the scheduler has moved back by one has, after \<open>reset\<close>, the
  window \<open>[1, 2]\<close>, while positions \<open>[0, end_idx)\<close> hold \<open>[1, 2, 3]\<close>.
\<close>

theorem reset_window_counterexample:
  "TextContext_init 0 (Inr [1, 2, 3]) None (array1 Int64 [1, 2, 3]) 0 False None = Inr prompt3 \<and>
   bump_token_indices prompt3 None (Some (- 1)) None = (Inr (), prefill3) \<and>
   end_idx (reset prefill3) = 3 \<and>
   next_tokens (reset prefill3) = [1, 2] \<and>
   py_slice (tokens (reset prefill3)) 0 (end_idx (reset prefill3)) = [1, 2, 3]"
  by (simp add: TextContext_init_def array1_def ndim_def len_ndarray_def initial_size_div
        bump_token_indices_def or_zero_def prompt3_def prefill3_def reset_def next_tokens_def
        py_slice_def slice_bound_def)

theorem reset_effect_witness:
  "0 \<le> active_idx prefill3 \<and> active_idx prefill3 \<le> end_idx prefill3 \<and>
   end_idx prefill3 \<le> int (length (tokens prefill3)) \<and>
   start_idx (reset prefill3) = 0 \<and> next_tokens (reset prefill3) = [1, 2] \<and>
   active_idx prefill3 \<noteq> end_idx prefill3 \<and>
   next_tokens (reset prefill3) \<noteq> take (nat (end_idx prefill3)) (tokens prefill3)"
proof -
  have h: "0 \<le> active_idx prefill3 \<and> active_idx prefill3 \<le> end_idx prefill3 \<and>
      end_idx prefill3 \<le> int (length (tokens prefill3))"
    by (simp add: prompt3_def prefill3_def)
  have ne: "active_idx prefill3 \<noteq> end_idx prefill3"
    by (simp add: prompt3_def prefill3_def)
  from reset_effect [of prefill3] h
  have s: "start_idx (reset prefill3) = 0"
    and nt: "next_tokens (reset prefill3) = take (nat (active_idx prefill3)) (tokens prefill3)"
    and iff: "next_tokens (reset prefill3) = take (nat (end_idx prefill3)) (tokens prefill3)
               \<longleftrightarrow> active_idx prefill3 = end_idx prefill3"
    by blast+
  have "next_tokens (reset prefill3) = [1, 2]"
    unfolding nt by (simp add: prompt3_def prefill3_def)
  with h ne s iff show ?thesis by simp
qed

text \<open>
  C2. In a state with \<open>active_idx < end_idx\<close>, \<open>update\<close> with any arguments returns
  normally, sets \<open>start_idx\<close> to the old \<open>active_idx\<close> and \<open>active_idx\<close> to
  \<open>end_idx\<close>, and leaves every other attribute (the array, the log probabilities, the
  matcher, \<open>end_idx\<close>, both completion cursors, the capacity) as it was.
\<close>

theorem update_chunked_prefill:
  fixes c :: "('m, 'lp, 'z) TextContext_scheme"
  assumes "active_idx c < end_idx c"
  shows "update E c new_token lp is_eos =
           (Inr (), c\<lparr>start_idx := active_idx c, active_idx := end_idx c\<rparr>)"
  using assms by (simp add: update_def)

theorem update_chunked_prefill_witness:
  "active_idx prefill3 < end_idx prefill3 \<and>
   update accept_all prefill3 9 (Some 1) True =
     (Inr (), prefill3\<lparr>start_idx := 2, active_idx := 3\<rparr>)"
  using update_chunked_prefill [of prefill3 accept_all 9 "Some 1" True]
  by (simp add: prompt3_def prefill3_def)

subsection \<open>The example contexts\<close>

lemma init_prompt3:
  "TextContext_init 0 (Inr [1, 2, 3]) None (array1 Int64 [1, 2, 3]) 0 False None = Inr prompt3"
  by (simp add: TextContext_init_def array1_def ndim_def len_ndarray_def initial_size_div
        prompt3_def)

lemma upsize_prompt3: "upsize prompt3 = (Inr (), prompt3)"
  by (simp add: upsize_def prompt3_def)

lemma generated3_reached:
  "update accept_all prompt3 5 (Some 7) False = (Inr (), generated3)"
proof -
  have i: "np_index (tokens prompt3) (active_idx prompt3) = Inr 3"
    by (simp add: np_index_def prompt3_def)
  have n: "\<not> active_idx prompt3 < end_idx prompt3" by (simp add: prompt3_def)
  have f: "dtype_fits (tokens_dtype prompt3) 5"
    by (simp add: dtype_fits_def prompt3_def)
  from update_generate [OF n upsize_prompt3 i f, of accept_all "Some 7" False]
  show ?thesis
    by (simp add: accept_new_token_def ledger_put_def accept_all_def generated3_def prompt3_def
          numeral_nat)
qed

lemma beyond3_reached:
  "bump_token_indices prompt3 None (Some 300) (Some 300) = (Inr (), beyond3)"
  by (simp add: bump_token_indices_def or_zero_def prompt3_def beyond3_def)

text \<open>
  C5, amended. \<open>jump_ahead\<close> leaves \<open>start_idx\<close>, \<open>completion_start_idx\<close> and the log
  probabilities alone in every state. Let the array be as long as \<open>size\<close> says. If \<open>active_idx\<close> is a position of the
  buffer as \<open>_upsize\<close> leaves it (\<open>0 \<le> active_idx < size\<close>, or \<open>< size + 128\<close> when
  \<open>end_idx \<ge> size\<close>) and the token fits the array's dtype, the call grows the buffer by
  one chunk exactly when \<open>end_idx\<close> has reached the capacity, writes the token at
  position \<open>active_idx\<close> and nowhere else, and advances \<open>active_idx\<close>, \<open>end_idx\<close> and
  \<open>completion_end_idx\<close> by one each, so that the active window is one token longer; the
  only exception it can then raise is the matcher's failed assertion, after these
  effects. If \<open>active_idx\<close> lies beyond that buffer the call raises IndexError, and if
  the token does not fit the dtype OverflowError; in both cases no cursor has moved.
\<close>

theorem jump_ahead_effect:
  fixes c :: "('m, 'lp, 'z) TextContext_scheme"
  shows "start_idx (snd (jump_ahead E c t)) = start_idx c \<and>
     completion_start_idx (snd (jump_ahead E c t)) = completion_start_idx c \<and>
     log_probabilities_data (snd (jump_ahead E c t)) = log_probabilities_data c \<and>
     (sized c \<and> 0 \<le> active_idx c \<and>
      active_idx c < (if size_cap c \<le> end_idx c then size_cap c + 128 else size_cap c) \<and>
      dtype_fits (tokens_dtype c) t \<longrightarrow>
        size_cap (snd (jump_ahead E c t)) =
          (if size_cap c \<le> end_idx c then size_cap c + 128 else size_cap c) \<and>
        int (length (tokens (snd (jump_ahead E c t)))) = size_cap (snd (jump_ahead E c t)) \<and>
        tokens (snd (jump_ahead E c t)) ! nat (active_idx c) = t \<and>
        (\<forall>i. i < length (tokens c) \<and> i \<noteq> nat (active_idx c) \<longrightarrow>
              tokens (snd (jump_ahead E c t)) ! i = tokens c ! i) \<and>
        active_idx (snd (jump_ahead E c t)) = active_idx c + 1 \<and>
        end_idx (snd (jump_ahead E c t)) = end_idx c + 1 \<and>
        completion_end_idx (snd (jump_ahead E c t)) = completion_end_idx c + 1 \<and>
        completion_start_idx (snd (jump_ahead E c t)) = completion_start_idx c \<and>
        active_length (snd (jump_ahead E c t)) = active_length c + 1 \<and>
        (fst (jump_ahead E c t) = Inr () \<or> fst (jump_ahead E c t) = Inl AssertionError)) \<and>
     (sized c \<and>
      ((if size_cap c \<le> end_idx c then size_cap c + 128 else size_cap c) \<le> active_idx c \<and>
         e = IndexError \<or>
       0 \<le> active_idx c \<and>
       active_idx c < (if size_cap c \<le> end_idx c then size_cap c + 128 else size_cap c) \<and>
         \<not> dtype_fits (tokens_dtype c) t \<and> e = OverflowError) \<longrightarrow>
        fst (jump_ahead E c t) = Inl e \<and>
        active_idx (snd (jump_ahead E c t)) = active_idx c \<and>
        end_idx (snd (jump_ahead E c t)) = end_idx c \<and>
        completion_end_idx (snd (jump_ahead E c t)) = completion_end_idx c)"
proof -
  obtain d s tk m b where
    "snd (jump_ahead E c t) =
       c\<lparr>size_cap := s, tokens := tk, active_idx := active_idx c + d,
         end_idx := end_idx c + d, completion_end_idx := completion_end_idx c + d,
         matcher := m, is_initial_prompt := b\<rparr>"
    using jump_ahead_shape by blast
  then have always: "start_idx (snd (jump_ahead E c t)) = start_idx c"
      "log_probabilities_data (snd (jump_ahead E c t)) = log_probabilities_data c"
      "completion_start_idx (snd (jump_ahead E c t)) = completion_start_idx c"
    by simp_all
  have works: "size_cap (snd (jump_ahead E c t)) =
          (if size_cap c \<le> end_idx c then size_cap c + 128 else size_cap c) \<and>
        int (length (tokens (snd (jump_ahead E c t)))) = size_cap (snd (jump_ahead E c t)) \<and>
        tokens (snd (jump_ahead E c t)) ! nat (active_idx c) = t \<and>
        (\<forall>i. i < length (tokens c) \<and> i \<noteq> nat (active_idx c) \<longrightarrow>
              tokens (snd (jump_ahead E c t)) ! i = tokens c ! i) \<and>
        active_idx (snd (jump_ahead E c t)) = active_idx c + 1 \<and>
        end_idx (snd (jump_ahead E c t)) = end_idx c + 1 \<and>
        completion_end_idx (snd (jump_ahead E c t)) = completion_end_idx c + 1 \<and>
        completion_start_idx (snd (jump_ahead E c t)) = completion_start_idx c \<and>
        active_length (snd (jump_ahead E c t)) = active_length c + 1 \<and>
        (fst (jump_ahead E c t) = Inr () \<or> fst (jump_ahead E c t) = Inl AssertionError)"
    if h: "sized c" "0 \<le> active_idx c"
      "active_idx c < (if size_cap c \<le> end_idx c then size_cap c + 128 else size_cap c)"
      "dtype_fits (tokens_dtype c) t"
  proof -
    define c1 where "c1 = snd (upsize c)"
    define c5 where "c5 = c1\<lparr>tokens := (tokens c1)[nat (active_idx c) := t],
                active_idx := active_idx c + 1, end_idx := end_idx c + 1,
                completion_end_idx := completion_end_idx c + 1\<rparr>"
    have j: "jump_ahead E c t = accept_new_token E c5 t"
      using jump_ahead_sized [OF h] by (simp add: c5_def c1_def)
    have up: "sized c1" "length (tokens c) \<le> length (tokens c1)"
        "\<forall>i. i < length (tokens c) \<longrightarrow> tokens c1 ! i = tokens c ! i"
      using upsize_sized [OF h(1)] by (simp_all add: c1_def)
    have inb: "nat (active_idx c) < length (tokens c1)"
      using write_index(2) [OF h(1,2,3)] by (simp add: c1_def)
    have cap: "size_cap c1 = (if size_cap c \<le> end_idx c then size_cap c + 128 else size_cap c)"
      by (simp add: c1_def upsize_size_cap CHUNK_SIZE_def)
    have tok: "tokens (snd (jump_ahead E c t)) = (tokens c1)[nat (active_idx c) := t]"
      by (simp add: j accept_new_token_fields c5_def)
    have 1: "size_cap (snd (jump_ahead E c t)) =
          (if size_cap c \<le> end_idx c then size_cap c + 128 else size_cap c)"
      using cap by (simp add: j accept_new_token_fields c5_def)
    have 2: "int (length (tokens (snd (jump_ahead E c t)))) = size_cap (snd (jump_ahead E c t))"
      using up(1) by (simp add: j accept_new_token_fields c5_def sized_def)
    have 3: "tokens (snd (jump_ahead E c t)) ! nat (active_idx c) = t"
      using inb by (simp add: tok)
    have 4: "\<forall>i. i < length (tokens c) \<and> i \<noteq> nat (active_idx c) \<longrightarrow>
              tokens (snd (jump_ahead E c t)) ! i = tokens c ! i"
      using up(3) by (simp add: tok)
    have 5: "active_idx (snd (jump_ahead E c t)) = active_idx c + 1"
        "end_idx (snd (jump_ahead E c t)) = end_idx c + 1"
        "completion_end_idx (snd (jump_ahead E c t)) = completion_end_idx c + 1"
        "completion_start_idx (snd (jump_ahead E c t)) = completion_start_idx c"
      by (simp_all add: j accept_new_token_fields c5_def c1_def upsize_fields)
    have 6: "active_length (snd (jump_ahead E c t)) = active_length c + 1"
      using always(1) 5(1) by (simp add: active_length_def)
    have 7: "fst (jump_ahead E c t) = Inr () \<or> fst (jump_ahead E c t) = Inl AssertionError"
      unfolding j by (rule accept_new_token_error)
    from 1 2 3 4 5 6 7 show ?thesis by blast
  qed
  have raises: "fst (jump_ahead E c t) = Inl e \<and>
        active_idx (snd (jump_ahead E c t)) = active_idx c \<and>
        end_idx (snd (jump_ahead E c t)) = end_idx c \<and>
        completion_end_idx (snd (jump_ahead E c t)) = completion_end_idx c"
    if s: "sized c" and h:
      "(if size_cap c \<le> end_idx c then size_cap c + 128 else size_cap c) \<le> active_idx c \<and>
         e = IndexError \<or>
       0 \<le> active_idx c \<and>
       active_idx c < (if size_cap c \<le> end_idx c then size_cap c + 128 else size_cap c) \<and>
         \<not> dtype_fits (tokens_dtype c) t \<and> e = OverflowError"
  proof -
    have u: "fst (upsize c) = Inr ()" using upsize_sized [OF s] by simp
    have "np_index (tokens (snd (upsize c))) (active_idx c) = Inl e \<or>
           (\<exists>k. np_index (tokens (snd (upsize c))) (active_idx c) = Inr k) \<and>
           \<not> dtype_fits (tokens_dtype c) t \<and> e = OverflowError"
      using h write_index_beyond [OF s, of "active_idx c"] write_index(1) [OF s, of "active_idx c"]
      by auto
    from jump_ahead_raises [OF this u]
    have "jump_ahead E c t = (Inl e, snd (upsize c))" .
    then show ?thesis by (simp add: upsize_fields)
  qed
  from always works raises show ?thesis by blast
qed

theorem jump_ahead_effect_witness:
  "sized prompt3 \<and> active_idx prompt3 = 3 \<and> end_idx prompt3 = 3 \<and> size_cap prompt3 = 128 \<and>
   dtype_fits (tokens_dtype prompt3) 9 \<and>
   tokens (snd (jump_ahead accept_all prompt3 9)) ! 3 = 9 \<and>
   active_idx (snd (jump_ahead accept_all prompt3 9)) = 4 \<and>
   end_idx (snd (jump_ahead accept_all prompt3 9)) = 4 \<and>
   completion_end_idx (snd (jump_ahead accept_all prompt3 9)) = 4 \<and>
   start_idx (snd (jump_ahead accept_all prompt3 9)) = 0 \<and>
   size_cap (snd (jump_ahead accept_all prompt3 9)) = 128 \<and>
   active_length (snd (jump_ahead accept_all prompt3 9)) = 4 \<and>
   \<not> dtype_fits (tokens_dtype prompt3) (2 ^ 63) \<and>
   fst (jump_ahead accept_all prompt3 (2 ^ 63)) = Inl OverflowError \<and>
   active_idx (snd (jump_ahead accept_all prompt3 (2 ^ 63))) = 3"
proof -
  have h: "sized prompt3" "active_idx prompt3 = 3" "end_idx prompt3 = 3"
      "size_cap prompt3 = 128" "dtype_fits (tokens_dtype prompt3) 9"
      "\<not> dtype_fits (tokens_dtype prompt3) (2 ^ 63)"
    by (simp_all add: prompt3_def sized_def dtype_fits_def)
  from jump_ahead_effect [of accept_all prompt3 9] h
  have a: "tokens (snd (jump_ahead accept_all prompt3 9)) ! 3 = 9 \<and>
   active_idx (snd (jump_ahead accept_all prompt3 9)) = 4 \<and>
   end_idx (snd (jump_ahead accept_all prompt3 9)) = 4 \<and>
   completion_end_idx (snd (jump_ahead accept_all prompt3 9)) = 4 \<and>
   start_idx (snd (jump_ahead accept_all prompt3 9)) = 0 \<and>
   size_cap (snd (jump_ahead accept_all prompt3 9)) = 128 \<and>
   active_length (snd (jump_ahead accept_all prompt3 9)) = 4"
    by (simp add: prompt3_def active_length_def)
  from jump_ahead_effect [of accept_all prompt3 "2 ^ 63" OverflowError] h
  have b: "fst (jump_ahead accept_all prompt3 (2 ^ 63)) = Inl OverflowError \<and>
   active_idx (snd (jump_ahead accept_all prompt3 (2 ^ 63))) = 3"
    by simp
  from h a b show ?thesis by simp
qed

text \<open>
  As the specification states it, for every context state, the property fails beyond the
  buffer: after \<open>bump_token_indices(active_idx=300, end_idx=300)\<close> on a prompt of three
  tokens, which returns, \<open>jump_ahead\<close> grows the buffer to 256, raises IndexError at
  position 303, and has written no token and moved no cursor.
\<close>

theorem jump_ahead_counterexample:
  "TextContext_init 0 (Inr [1, 2, 3]) None (array1 Int64 [1, 2, 3]) 0 False None = Inr prompt3 \<and>
   bump_token_indices prompt3 None (Some 300) (Some 300) = (Inr (), beyond3) \<and>
   fst (jump_ahead accept_all beyond3 9) = Inl IndexError \<and>
   size_cap (snd (jump_ahead accept_all beyond3 9)) = 256 \<and>
   active_idx (snd (jump_ahead accept_all beyond3 9)) = 303 \<and>
   end_idx (snd (jump_ahead accept_all beyond3 9)) = 303 \<and>
   completion_end_idx (snd (jump_ahead accept_all beyond3 9)) = 3"
proof -
  have s: "sized beyond3" by (simp add: sized_def beyond3_def prompt3_def)
  have u: "fst (upsize beyond3) = Inr ()" using upsize_sized [OF s] by simp
  have "(if size_cap beyond3 \<le> end_idx beyond3 then size_cap beyond3 + 128
         else size_cap beyond3) \<le> active_idx beyond3"
    by (simp add: beyond3_def prompt3_def)
  then have "np_index (tokens (snd (upsize beyond3))) (active_idx beyond3) = Inl IndexError"
    by (rule write_index_beyond [OF s])
  then have "jump_ahead accept_all beyond3 9 = (Inl IndexError, snd (upsize beyond3))"
    using u by (intro jump_ahead_raises) simp_all
  then have "fst (jump_ahead accept_all beyond3 9) = Inl IndexError \<and>
   size_cap (snd (jump_ahead accept_all beyond3 9)) = 256 \<and>
   active_idx (snd (jump_ahead accept_all beyond3 9)) = 303 \<and>
   end_idx (snd (jump_ahead accept_all beyond3 9)) = 303 \<and>
   completion_end_idx (snd (jump_ahead accept_all beyond3 9)) = 3"
    by (simp add: upsize_fields upsize_size_cap CHUNK_SIZE_def beyond3_def prompt3_def)
  with init_prompt3 beyond3_reached show ?thesis by simp
qed

subsection \<open>The frame of outstanding_completion_tokens\<close>

lemma drain_loop_error:
  "fst (drain_loop xs c res) = Inl e \<Longrightarrow> e = IndexError"
proof (induction xs arbitrary: c res)
  case Nil
  then show ?case by simp
next
  case (Cons i xs)
  show ?case
  proof (cases "np_index (tokens c) i")
    case (Inl e')
    then have "e' = IndexError"
      by (simp add: np_index_def Let_def split: if_splits)
    with Inl Cons.prems show ?thesis by simp
  next
    case (Inr k)
    with Cons.prems Cons.IH show ?thesis by simp
  qed
qed

lemma outstanding_raises:
  assumes "fst (outstanding_completion_tokens c) = Inl e"
  shows "e = IndexError"
    and "completion_start_idx (snd (outstanding_completion_tokens c)) = completion_start_idx c"
proof -
  define xs where "xs = [completion_start_idx c..completion_end_idx c - 1]"
  obtain r c1 where d: "drain_loop xs c [] = (r, c1)" by (cases "drain_loop xs c []")
  have r: "r = Inl e"
    using assms d by (cases r) (simp_all add: outstanding_completion_tokens_def xs_def [symmetric])
  then have "fst (drain_loop xs c []) = Inl e" using d by simp
  then show "e = IndexError" by (rule drain_loop_error)
  obtain l where l: "c1 = c\<lparr>log_probabilities_data := l\<rparr>"
    using drain_loop_other [of xs c "[]"] d by auto
  show "completion_start_idx (snd (outstanding_completion_tokens c)) = completion_start_idx c"
    using d r l by (simp add: outstanding_completion_tokens_def xs_def [symmetric])
qed

text \<open>
  C10, amended. In every state \<open>outstanding_completion_tokens\<close> changes nothing of a
  context but \<open>completion_start_idx\<close> and the dictionary of log probabilities, and of the
  dictionary only positions in \<open>[completion_start_idx, completion_end_idx)\<close>. When it
  returns, \<open>completion_start_idx\<close> is \<open>completion_end_idx\<close> and the entries at exactly
  the returned positions are gone; it returns, with the tokens and entries of these
  positions in order, whenever the completion window lies within the array. When it
  raises, the exception is IndexError and \<open>completion_start_idx\<close> is as before.
\<close>

theorem outstanding_completion_tokens_frame:
  fixes c :: "('m, 'lp, 'z) TextContext_scheme"
  shows "(\<exists>s l. snd (outstanding_completion_tokens c) =
             c\<lparr>completion_start_idx := s, log_probabilities_data := l\<rparr>) \<and>
     (\<forall>k. \<not> (completion_start_idx c \<le> k \<and> k < completion_end_idx c) \<longrightarrow>
          log_probabilities_data (snd (outstanding_completion_tokens c)) k =
          log_probabilities_data c k) \<and>
     (\<forall>res. fst (outstanding_completion_tokens c) = Inr res \<longrightarrow>
          completion_start_idx (snd (outstanding_completion_tokens c)) = completion_end_idx c \<and>
          (\<forall>k. completion_start_idx c \<le> k \<and> k < completion_end_idx c \<longrightarrow>
               log_probabilities_data (snd (outstanding_completion_tokens c)) k = None)) \<and>
     (0 \<le> completion_start_idx c \<and> completion_end_idx c \<le> int (length (tokens c)) \<longrightarrow>
        fst (outstanding_completion_tokens c) =
          Inr (map (\<lambda>i. (tokens c ! nat i, log_probabilities_data c i))
                 [completion_start_idx c..completion_end_idx c - 1])) \<and>
     (\<forall>e. fst (outstanding_completion_tokens c) = Inl e \<longrightarrow>
          e = IndexError \<and>
          completion_start_idx (snd (outstanding_completion_tokens c)) = completion_start_idx c)"
proof -
  obtain s l where o: "snd (outstanding_completion_tokens c) =
            c\<lparr>completion_start_idx := s, log_probabilities_data := l\<rparr>"
    and keep: "\<forall>k. \<not> (completion_start_idx c \<le> k \<and> k < completion_end_idx c) \<longrightarrow>
                 l k = log_probabilities_data c k"
    using outstanding_other by blast
  have 1: "\<exists>s l. snd (outstanding_completion_tokens c) =
             c\<lparr>completion_start_idx := s, log_probabilities_data := l\<rparr>"
    using o by blast
  have 2: "\<forall>k. \<not> (completion_start_idx c \<le> k \<and> k < completion_end_idx c) \<longrightarrow>
          log_probabilities_data (snd (outstanding_completion_tokens c)) k =
          log_probabilities_data c k"
    using keep by (simp add: o)
  have 3: "\<forall>res. fst (outstanding_completion_tokens c) = Inr res \<longrightarrow>
          completion_start_idx (snd (outstanding_completion_tokens c)) = completion_end_idx c \<and>
          (\<forall>k. completion_start_idx c \<le> k \<and> k < completion_end_idx c \<longrightarrow>
               log_probabilities_data (snd (outstanding_completion_tokens c)) k = None)"
    using outstanding_returns by blast
  have 4: "0 \<le> completion_start_idx c \<and> completion_end_idx c \<le> int (length (tokens c)) \<longrightarrow>
        fst (outstanding_completion_tokens c) =
          Inr (map (\<lambda>i. (tokens c ! nat i, log_probabilities_data c i))
                 [completion_start_idx c..completion_end_idx c - 1])"
    using outstanding_in_range by blast
  have 5: "\<forall>e. fst (outstanding_completion_tokens c) = Inl e \<longrightarrow>
          e = IndexError \<and>
          completion_start_idx (snd (outstanding_completion_tokens c)) = completion_start_idx c"
    using outstanding_raises by blast
  from 1 2 3 4 5 show ?thesis by blast
qed

theorem outstanding_completion_tokens_frame_witness:
  "completion_start_idx generated3 = 3 \<and> completion_end_idx generated3 = 4 \<and>
   log_probabilities_data generated3 3 = Some 7 \<and>
   fst (outstanding_completion_tokens generated3) = Inr [(5, Some 7)] \<and>
   completion_start_idx (snd (outstanding_completion_tokens generated3)) = 4 \<and>
   log_probabilities_data (snd (outstanding_completion_tokens generated3)) 3 = None \<and>
   log_probabilities_data (snd (outstanding_completion_tokens generated3)) 2 =
     log_probabilities_data generated3 2"
  using outstanding_completion_tokens_frame [of generated3]
  by (simp add: generated3_def prompt3_def)

lemma init_prompt127:
  "TextContext_init 0 (Inr (replicate 127 1)) None (array1 Int64 (replicate 127 1)) 0 False None
     = Inr prompt127"
  by (simp add: TextContext_init_def array1_def ndim_def len_ndarray_def initial_size_div
        prompt127_def)

lemma overrun127_reached:
  "run accept_all prompt127
     [Bump_token_indices None (Some (- 1)) (Some (- 1)), Update 8 (Some 3) False,
      Update 9 (Some 2) False] = overrun127"
proof -
  define p1 where "p1 = prompt127\<lparr>active_idx := 126, end_idx := 126\<rparr>"
  define p2 where "p2 = p1\<lparr>tokens := (tokens prompt127)[126 := 8],
      log_probabilities_data := [126 \<mapsto> 3], start_idx := 126, active_idx := 127,
      end_idx := 127, completion_end_idx := 128, is_initial_prompt := False\<rparr>"
  have b: "bump_token_indices prompt127 None (Some (- 1)) (Some (- 1)) = (Inr (), p1)"
    by (simp add: bump_token_indices_def or_zero_def prompt127_def p1_def)
  have n1: "\<not> active_idx p1 < end_idx p1" by (simp add: p1_def)
  have u1: "upsize p1 = (Inr (), p1)"
    by (simp add: upsize_def p1_def prompt127_def)
  have i1: "np_index (tokens p1) (active_idx p1) = Inr 126"
    by (simp add: np_index_def p1_def prompt127_def)
  have f1: "dtype_fits (tokens_dtype p1) 8"
    by (simp add: dtype_fits_def p1_def prompt127_def)
  from update_generate [OF n1 u1 i1 f1, of accept_all "Some 3" False]
  have s1: "update accept_all p1 8 (Some 3) False = (Inr (), p2)"
    by (simp add: accept_new_token_def ledger_put_def accept_all_def p2_def p1_def
          prompt127_def)
  have n2: "\<not> active_idx p2 < end_idx p2" by (simp add: p2_def)
  have u2: "upsize p2 = (Inr (), p2)"
    by (simp add: upsize_def p2_def p1_def prompt127_def)
  have i2: "np_index (tokens p2) (active_idx p2) = Inr 127"
    by (simp add: np_index_def p2_def p1_def prompt127_def)
  have f2: "dtype_fits (tokens_dtype p2) 9"
    by (simp add: dtype_fits_def p2_def p1_def prompt127_def)
  from update_generate [OF n2 u2 i2 f2, of accept_all "Some 2" False]
  have s2: "update accept_all p2 9 (Some 2) False = (Inr (), overrun127)"
    by (simp add: accept_new_token_def ledger_put_def accept_all_def p2_def p1_def
          overrun127_def prompt127_def)
  show ?thesis
    by (simp add: b s1 s2 no_value_def)
qed

text \<open>
  As the specification states it, for every context state, the property fails when the
  completion window reaches beyond the array. On a prompt of 127 tokens, after
  \<open>bump_token_indices(active_idx=-1, end_idx=-1)\<close> and two scored tokens, the window is
  \<open>[127, 129)\<close> over an array of 128 elements: the call pops the entry of position 127,
  raises IndexError at position 128, returns nothing and leaves \<open>completion_start_idx\<close>
  at 127.
\<close>

theorem outstanding_completion_tokens_counterexample:
  "TextContext_init 0 (Inr (replicate 127 1)) None (array1 Int64 (replicate 127 1)) 0 False None
     = Inr prompt127 \<and>
   run accept_all prompt127
     [Bump_token_indices None (Some (- 1)) (Some (- 1)), Update 8 (Some 3) False,
      Update 9 (Some 2) False] = overrun127 \<and>
   completion_start_idx overrun127 = 127 \<and> completion_end_idx overrun127 = 129 \<and>
   log_probabilities_data overrun127 127 = Some 2 \<and>
   fst (outstanding_completion_tokens overrun127) = Inl IndexError \<and>
   completion_start_idx (snd (outstanding_completion_tokens overrun127)) = 127 \<and>
   log_probabilities_data (snd (outstanding_completion_tokens overrun127)) 127 = None"
proof -
  have "outstanding_completion_tokens overrun127 =
      (Inl IndexError,
       overrun127\<lparr>log_probabilities_data := (log_probabilities_data overrun127)(127 := None)\<rparr>)"
    by (simp add: outstanding_completion_tokens_def np_index_def overrun127_def prompt127_def)
  then have "fst (outstanding_completion_tokens overrun127) = Inl IndexError \<and>
   completion_start_idx (snd (outstanding_completion_tokens overrun127)) = 127 \<and>
   log_probabilities_data (snd (outstanding_completion_tokens overrun127)) 127 = None"
    by (simp add: overrun127_def prompt127_def)
  moreover have "completion_start_idx overrun127 = 127 \<and> completion_end_idx overrun127 = 129 \<and>
   log_probabilities_data overrun127 127 = Some 2"
    by (simp add: overrun127_def prompt127_def)
  ultimately show ?thesis
    using init_prompt127 overrun127_reached by simp
qed

lemma snd_no_value: "snd (no_value r) = snd r"
  by (cases r) (simp add: no_value_def split: sum.splits)

subsection \<open>What every call maintains\<close>

lemma update_weak:
  fixes c :: "('m, 'lp, 'z) TextContext_scheme" and E t lp is_eos
  defines "c' \<equiv> snd (update E c t lp is_eos)"
  shows "completion_start_idx c' = completion_start_idx c"
    and "completion_end_idx c' = completion_end_idx c \<or>
         \<not> is_eos \<and> completion_end_idx c' = completion_end_idx c + 1"
    and "size_cap c' = size_cap c \<or> size_cap c' = size_cap c + CHUNK_SIZE"
    and "active_idx c \<le> end_idx c \<Longrightarrow> active_idx c' \<le> end_idx c'"
    and "TextContext.more c' = TextContext.more c"
proof -
  have "completion_start_idx c' = completion_start_idx c \<and>
        (completion_end_idx c' = completion_end_idx c \<or>
         \<not> is_eos \<and> completion_end_idx c' = completion_end_idx c + 1) \<and>
        (size_cap c' = size_cap c \<or> size_cap c' = size_cap c + CHUNK_SIZE) \<and>
        (active_idx c \<le> end_idx c \<longrightarrow> active_idx c' \<le> end_idx c') \<and>
        TextContext.more c' = TextContext.more c"
  proof (cases "active_idx c < end_idx c")
    case True
    then show ?thesis by (simp add: c'_def update_prefill)
  next
    case False
    from update_shape [OF this, of E t lp is_eos]
    obtain d s tk l st m b where
      d: "d = 0 \<and> st = start_idx c \<or> d = 1 \<and> st = active_idx c"
      and s: "s = size_cap c \<or> s = size_cap c + CHUNK_SIZE"
      and eq: "c' = c\<lparr>size_cap := s, tokens := tk, log_probabilities_data := l, start_idx := st,
         active_idx := active_idx c + d, end_idx := end_idx c + d,
         completion_end_idx := completion_end_idx c + (if is_eos then 0 else d),
         matcher := m, is_initial_prompt := b\<rparr>"
      unfolding c'_def by (elim exE conjE)
    from d have d': "d = 0 \<or> d = 1" by blast
    have 1: "completion_start_idx c' = completion_start_idx c" by (simp add: eq)
    have 2: "completion_end_idx c' = completion_end_idx c \<or>
         \<not> is_eos \<and> completion_end_idx c' = completion_end_idx c + 1"
      using d' by (cases is_eos) (auto simp: eq)
    have 3: "size_cap c' = size_cap c \<or> size_cap c' = size_cap c + CHUNK_SIZE"
      using s by (simp add: eq)
    have 4: "active_idx c \<le> end_idx c \<longrightarrow> active_idx c' \<le> end_idx c'"
      by (simp add: eq)
    have 5: "TextContext.more c' = TextContext.more c" by (simp add: eq)
    from 1 2 3 4 5 show ?thesis by blast
  qed
  then show "completion_start_idx c' = completion_start_idx c"
    and "completion_end_idx c' = completion_end_idx c \<or>
         \<not> is_eos \<and> completion_end_idx c' = completion_end_idx c + 1"
    and "size_cap c' = size_cap c \<or> size_cap c' = size_cap c + CHUNK_SIZE"
    and "active_idx c \<le> end_idx c \<Longrightarrow> active_idx c' \<le> end_idx c'"
    and "TextContext.more c' = TextContext.more c"
    by blast+
qed

lemma jump_ahead_weak:
  fixes c :: "('m, 'lp, 'z) TextContext_scheme" and E t
  defines "c' \<equiv> snd (jump_ahead E c t)"
  shows "completion_start_idx c' = completion_start_idx c"
    and "completion_end_idx c' = completion_end_idx c \<or>
         completion_end_idx c' = completion_end_idx c + 1"
    and "size_cap c' = size_cap c \<or> size_cap c' = size_cap c + CHUNK_SIZE"
    and "active_idx c \<le> end_idx c \<Longrightarrow> active_idx c' \<le> end_idx c'"
    and "TextContext.more c' = TextContext.more c"
proof -
  from jump_ahead_shape [of c E t]
  obtain d s tk m b where d: "d = 0 \<or> d = 1"
    and s: "s = size_cap c \<or> s = size_cap c + CHUNK_SIZE"
    and eq: "c' = c\<lparr>size_cap := s, tokens := tk, active_idx := active_idx c + d,
         end_idx := end_idx c + d, completion_end_idx := completion_end_idx c + d,
         matcher := m, is_initial_prompt := b\<rparr>"
    unfolding c'_def by (elim exE conjE)
  show "completion_start_idx c' = completion_start_idx c" by (simp add: eq)
  show "completion_end_idx c' = completion_end_idx c \<or>
         completion_end_idx c' = completion_end_idx c + 1"
    using d by (auto simp: eq)
  show "size_cap c' = size_cap c \<or> size_cap c' = size_cap c + CHUNK_SIZE"
    using s by (simp add: eq)
  show "active_idx c \<le> end_idx c \<Longrightarrow> active_idx c' \<le> end_idx c'" by (simp add: eq)
  show "TextContext.more c' = TextContext.more c" by (simp add: eq)
qed

lemma bump_weak:
  fixes c :: "('m, 'lp, 'z) TextContext_scheme" and ds da de
  defines "c' \<equiv> snd (bump_token_indices c ds da de)"
  shows "completion_start_idx c' = completion_start_idx c"
    and "completion_end_idx c' = completion_end_idx c"
    and "size_cap c' = size_cap c"
    and "active_idx c \<le> end_idx c \<Longrightarrow> active_idx c' \<le> end_idx c'"
    and "TextContext.more c' = TextContext.more c"
    and "tokens c' = tokens c"
  by (simp_all add: c'_def bump_token_indices_def Let_def)

lemma outstanding_weak:
  fixes c :: "('m, 'lp, 'z) TextContext_scheme"
  defines "c' \<equiv> snd (outstanding_completion_tokens c)"
  shows "completion_start_idx c' = completion_start_idx c \<or>
         completion_start_idx c' = completion_end_idx c"
    and "completion_end_idx c' = completion_end_idx c"
    and "size_cap c' = size_cap c" and "tokens c' = tokens c"
    and "active_idx c' = active_idx c" and "end_idx c' = end_idx c"
    and "start_idx c' = start_idx c"
    and "TextContext.more c' = TextContext.more c"
proof -
  from outstanding_other [of c]
  obtain s l where eq: "c' = c\<lparr>completion_start_idx := s, log_probabilities_data := l\<rparr>"
    and s: "s = completion_start_idx c \<or> s = completion_end_idx c"
    unfolding c'_def by (elim exE conjE)
  show "completion_start_idx c' = completion_start_idx c \<or>
         completion_start_idx c' = completion_end_idx c"
    using s by (simp add: eq)
  show "completion_end_idx c' = completion_end_idx c"
    "size_cap c' = size_cap c" "tokens c' = tokens c"
    "active_idx c' = active_idx c" "end_idx c' = end_idx c"
    "start_idx c' = start_idx c"
    "TextContext.more c' = TextContext.more c"
    by (simp_all add: eq)
qed

text \<open>The part of the invariants no call can break.\<close>

lemma call_weak:
  fixes c :: "('m, 'lp, 'z) TextContext_scheme"
  assumes "active_idx c \<le> end_idx c" "size_cap c mod CHUNK_SIZE = 0"
    "completion_start_idx c \<le> completion_end_idx c"
  shows "active_idx (snd (call E c x)) \<le> end_idx (snd (call E c x)) \<and>
         size_cap (snd (call E c x)) mod CHUNK_SIZE = 0 \<and>
         completion_start_idx (snd (call E c x)) \<le> completion_end_idx (snd (call E c x))"
proof (cases x)
  case (Update t lp is_eos)
  have "size_cap (snd (update E c t lp is_eos)) mod CHUNK_SIZE = 0"
    using update_weak(3) [of E c t lp is_eos] assms(2) by auto
  moreover have "completion_start_idx (snd (update E c t lp is_eos))
      \<le> completion_end_idx (snd (update E c t lp is_eos))"
    using update_weak(1,2) [of E c t lp is_eos] assms(3) by auto
  ultimately show ?thesis
    using update_weak(4) [OF assms(1), of E t lp is_eos] by (simp add: Update snd_no_value)
next
  case (Jump_ahead t)
  have "size_cap (snd (jump_ahead E c t)) mod CHUNK_SIZE = 0"
    using jump_ahead_weak(3) [of E c t] assms(2) by auto
  moreover have "completion_start_idx (snd (jump_ahead E c t))
      \<le> completion_end_idx (snd (jump_ahead E c t))"
    using jump_ahead_weak(1,2) [of E c t] assms(3) by auto
  ultimately show ?thesis
    using jump_ahead_weak(4) [OF assms(1), of E t] by (simp add: Jump_ahead snd_no_value)
next
  case (Bump_token_indices ds da de)
  show ?thesis
    using assms bump_weak(4) [OF assms(1), of ds da de]
    by (simp add: Bump_token_indices snd_no_value bump_weak(1,2,3))
next
  case Reset
  with assms show ?thesis by (simp add: reset_def)
next
  case Outstanding_completion_tokens
  show ?thesis
    using assms outstanding_weak(1) [of c]
    by (auto simp: Outstanding_completion_tokens outstanding_weak(2,3,5,6))
next
  case (Set_matcher m)
  with assms show ?thesis by (simp add: set_matcher_def)
qed

subsection \<open>What calls within the buffer maintain\<close>

lemma upsize_invariant:
  fixes c :: "('m, 'lp, 'z) TextContext_scheme"
  assumes "window_invariant c" "sized c"
  shows "window_invariant (snd (upsize c)) \<and> sized (snd (upsize c))"
proof -
  have "sized (snd (upsize c))" using upsize_sized [OF assms(2)] by simp
  moreover have "window_invariant (snd (upsize c))"
    using assms(1)
    by (auto simp: window_invariant_def upsize_fields upsize_size_cap CHUNK_SIZE_def)
  ultimately show ?thesis by simp
qed

lemma update_invariant:
  fixes c :: "('m, 'lp, 'z) TextContext_scheme"
  assumes "window_invariant c" "sized c"
  shows "window_invariant (snd (update E c t lp is_eos)) \<and> sized (snd (update E c t lp is_eos))"
proof (cases "active_idx c < end_idx c")
  case True
  with assms show ?thesis
    by (simp add: update_prefill window_invariant_def sized_def)
next
  case False
  with assms(1) have eq: "active_idx c = end_idx c" and a0: "0 \<le> active_idx c"
    and es: "end_idx c \<le> size_cap c"
    by (simp_all add: window_invariant_def)
  have le: "active_idx c \<le> end_idx c" using eq by simp
  show ?thesis
  proof (cases "dtype_fits (tokens_dtype c) t")
    case fits: True
    define c1 where "c1 = snd (upsize c)"
    define c7 where "c7 = c1\<lparr>tokens := (tokens c1)[nat (active_idx c) := t],
                log_probabilities_data :=
                  ledger_put E (log_probabilities_data c) (active_idx c) lp,
                start_idx := active_idx c,
                active_idx := active_idx c + 1, end_idx := end_idx c + 1,
                completion_end_idx := completion_end_idx c + (if is_eos then 0 else 1)\<rparr>"
    have u: "update E c t lp is_eos = accept_new_token E c7 t"
      using update_sized [OF assms(2) a0 eq es fits] by (simp add: c7_def c1_def)
    have s1: "sized c1" using upsize_sized [OF assms(2)] by (simp add: c1_def)
    have cap: "end_idx c < size_cap c1 \<and> size_cap c1 mod CHUNK_SIZE = 0"
      using assms(1) by (auto simp: c1_def upsize_size_cap window_invariant_def CHUNK_SIZE_def)
    have "sized (snd (update E c t lp is_eos))"
      using s1 by (simp add: u sized_def accept_new_token_fields c7_def)
    moreover have "window_invariant (snd (update E c t lp is_eos))"
      using assms(1) cap eq
      by (simp add: u window_invariant_def accept_new_token_fields c7_def c1_def upsize_fields)
    ultimately show ?thesis by simp
  next
    case nofit: False
    have u: "fst (upsize c) = Inr ()" using upsize_sized [OF assms(2)] by simp
    have "\<exists>k. np_index (tokens (snd (upsize c))) (active_idx c) = Inr k"
      using write_index(1) [OF assms(2) a0 within_buffer [OF le es]] by blast
    with nofit have "update E c t lp is_eos = (Inl OverflowError, snd (upsize c))"
      using False u by (intro update_raises) simp_all
    then show ?thesis using upsize_invariant [OF assms] by simp
  qed
qed

lemma jump_ahead_invariant:
  fixes c :: "('m, 'lp, 'z) TextContext_scheme"
  assumes "window_invariant c" "sized c"
  shows "window_invariant (snd (jump_ahead E c t)) \<and> sized (snd (jump_ahead E c t))"
proof -
  from assms(1) have a0: "0 \<le> active_idx c" and ae: "active_idx c \<le> end_idx c"
    and es: "end_idx c \<le> size_cap c"
    by (simp_all add: window_invariant_def)
  show ?thesis
  proof (cases "dtype_fits (tokens_dtype c) t")
    case fits: True
    define c1 where "c1 = snd (upsize c)"
    define c5 where "c5 = c1\<lparr>tokens := (tokens c1)[nat (active_idx c) := t],
                active_idx := active_idx c + 1, end_idx := end_idx c + 1,
                completion_end_idx := completion_end_idx c + 1\<rparr>"
    have u: "jump_ahead E c t = accept_new_token E c5 t"
      using jump_ahead_sized [OF assms(2) a0 within_buffer [OF ae es] fits]
      by (simp add: c5_def c1_def)
    have s1: "sized c1" using upsize_sized [OF assms(2)] by (simp add: c1_def)
    have cap: "end_idx c < size_cap c1 \<and> size_cap c1 mod CHUNK_SIZE = 0"
      using assms(1) by (auto simp: c1_def upsize_size_cap window_invariant_def CHUNK_SIZE_def)
    have "sized (snd (jump_ahead E c t))"
      using s1 by (simp add: u sized_def accept_new_token_fields c5_def)
    moreover have "window_invariant (snd (jump_ahead E c t))"
      using assms(1) cap
      by (simp add: u window_invariant_def accept_new_token_fields c5_def c1_def upsize_fields)
    ultimately show ?thesis by simp
  next
    case nofit: False
    have u: "fst (upsize c) = Inr ()" using upsize_sized [OF assms(2)] by simp
    have "\<exists>k. np_index (tokens (snd (upsize c))) (active_idx c) = Inr k"
      using write_index(1) [OF assms(2) a0 within_buffer [OF ae es]] by blast
    with nofit have "jump_ahead E c t = (Inl OverflowError, snd (upsize c))"
      using u by (intro jump_ahead_raises) simp_all
    then show ?thesis using upsize_invariant [OF assms] by simp
  qed
qed

lemma call_invariant:
  fixes c :: "('m, 'lp, 'z) TextContext_scheme"
  assumes "window_invariant c" "sized c" "forward_bump x"
  shows "window_invariant (snd (call E c x)) \<and> sized (snd (call E c x))"
proof (cases x)
  case (Update t lp is_eos)
  then show ?thesis using update_invariant [OF assms(1,2)] by (simp add: snd_no_value)
next
  case (Jump_ahead t)
  then show ?thesis using jump_ahead_invariant [OF assms(1,2)] by (simp add: snd_no_value)
next
  case (Bump_token_indices ds da de)
  with assms show ?thesis
    by (auto simp: snd_no_value bump_token_indices_def Let_def window_invariant_def sized_def)
next
  case Reset
  with assms show ?thesis by (simp add: reset_def window_invariant_def sized_def)
next
  case Outstanding_completion_tokens
  show ?thesis
    using assms(1,2) outstanding_weak(1) [of c]
    by (auto simp: Outstanding_completion_tokens window_invariant_def sized_def
          outstanding_weak(2,3,4,5,6,7))
next
  case (Set_matcher m)
  with assms show ?thesis by (simp add: set_matcher_def window_invariant_def sized_def)
qed

lemma run_invariant:
  fixes c :: "('m, 'lp, 'z) TextContext_scheme"
  shows "window_invariant c \<Longrightarrow> sized c \<Longrightarrow> list_all forward_bump xs \<Longrightarrow>
    window_invariant (run E c xs) \<and> sized (run E c xs)"
proof (induction xs arbitrary: c)
  case Nil
  then show ?case by simp
next
  case (Cons x xs)
  from Cons.prems have "forward_bump x" "list_all forward_bump xs" by simp_all
  with call_invariant [OF Cons.prems(1,2), of x E] Cons.IH [of "snd (call E c x)"]
  show ?case by simp
qed

lemma run_weak:
  fixes c :: "('m, 'lp, 'z) TextContext_scheme"
  shows "active_idx c \<le> end_idx c \<Longrightarrow> size_cap c mod CHUNK_SIZE = 0 \<Longrightarrow>
    completion_start_idx c \<le> completion_end_idx c \<Longrightarrow>
    active_idx (run E c xs) \<le> end_idx (run E c xs) \<and>
    size_cap (run E c xs) mod CHUNK_SIZE = 0 \<and>
    completion_start_idx (run E c xs) \<le> completion_end_idx (run E c xs)"
proof (induction xs arbitrary: c)
  case Nil
  then show ?case by simp
next
  case (Cons x xs)
  from call_weak [OF Cons.prems, of E x] Cons.IH [of "snd (call E c x)"]
  show ?case by simp
qed

lemma init_invariant:
  assumes "TextContext_init cid pr ml (array1 d p) lps echo js = Inr c"
  shows "window_invariant c \<and> sized c"
proof -
  have ge: "int (length p) \<le> initial_size (length p)" by (rule initial_size_ge)
  with assms have c: "c = \<lparr>cache_seq_id = cid, prompt = pr, max_length = ml,
          size_cap = initial_size (length p),
          tokens = p @ replicate (nat (initial_size (length p)) - length p) 0,
          tokens_dtype = d,
          active_idx = int (length p), start_idx = 0, end_idx = int (length p),
          completion_start_idx = int (length p), completion_end_idx = int (length p),
          log_probabilities = lps, log_probabilities_echo = echo,
          log_probabilities_data = Map.empty,
          matcher = None, json_schema = js, is_initial_prompt = True\<rparr>"
    by (simp add: TextContext_init_def array1_def ndim_def len_ndarray_def Let_def)
  show ?thesis
    using ge by (simp add: c window_invariant_def sized_def initial_size_chunks)
qed

subsection \<open>The array is as long as the capacity says, whatever is called\<close>

lemma jump_ahead_generate:
  assumes "upsize c = (Inr (), c1)"
    and "np_index (tokens c1) (active_idx c1) = Inr k"
    and "dtype_fits (tokens_dtype c1) t"
  shows "jump_ahead E c t =
     accept_new_token E
       (c1\<lparr>tokens := (tokens c1)[k := t], active_idx := active_idx c1 + 1,
           end_idx := end_idx c1 + 1,
           completion_end_idx := completion_end_idx c1 + 1\<rparr>) t"
  using assms by (simp add: jump_ahead_def Let_def)

lemma update_sized_any:
  fixes c :: "('m, 'lp, 'z) TextContext_scheme"
  assumes "sized c"
  shows "sized (snd (update E c t lp is_eos))"
proof (cases "active_idx c < end_idx c")
  case True
  with assms show ?thesis by (simp add: update_prefill sized_def)
next
  case False
  define c1 where "c1 = snd (upsize c)"
  have u: "fst (upsize c) = Inr ()" and s1: "sized c1"
    using upsize_sized [OF assms] by (simp_all add: c1_def)
  have u': "upsize c = (Inr (), c1)" using u by (simp add: c1_def prod_eq_iff)
  have a: "active_idx c1 = active_idx c" "tokens_dtype c1 = tokens_dtype c"
    by (simp_all add: c1_def upsize_fields)
  show ?thesis
  proof (cases "np_index (tokens c1) (active_idx c)")
    case (Inl e)
    then have "update E c t lp is_eos = (Inl e, snd (upsize c))"
      using False u by (intro update_raises) (simp_all add: c1_def)
    with s1 show ?thesis by (simp add: c1_def)
  next
    case (Inr k)
    show ?thesis
    proof (cases "dtype_fits (tokens_dtype c) t")
      case False
      with Inr have "update E c t lp is_eos = (Inl OverflowError, snd (upsize c))"
        using \<open>\<not> active_idx c < end_idx c\<close> u by (intro update_raises) (auto simp: c1_def)
      with s1 show ?thesis by (simp add: c1_def)
    next
      case True
      have i: "np_index (tokens c1) (active_idx c1) = Inr k" using Inr a by simp
      have f: "dtype_fits (tokens_dtype c1) t" using True a by simp
      from update_generate [OF \<open>\<not> active_idx c < end_idx c\<close> u' i f, of E lp is_eos] s1
      show ?thesis by (simp add: sized_def accept_new_token_fields)
    qed
  qed
qed

lemma jump_ahead_sized_any:
  fixes c :: "('m, 'lp, 'z) TextContext_scheme"
  assumes "sized c"
  shows "sized (snd (jump_ahead E c t))"
proof -
  define c1 where "c1 = snd (upsize c)"
  have u: "fst (upsize c) = Inr ()" and s1: "sized c1"
    using upsize_sized [OF assms] by (simp_all add: c1_def)
  have u': "upsize c = (Inr (), c1)" using u by (simp add: c1_def prod_eq_iff)
  have a: "active_idx c1 = active_idx c" "tokens_dtype c1 = tokens_dtype c"
    by (simp_all add: c1_def upsize_fields)
  show ?thesis
  proof (cases "np_index (tokens c1) (active_idx c)")
    case (Inl e)
    then have "jump_ahead E c t = (Inl e, snd (upsize c))"
      using u by (intro jump_ahead_raises) (simp_all add: c1_def)
    with s1 show ?thesis by (simp add: c1_def)
  next
    case (Inr k)
    show ?thesis
    proof (cases "dtype_fits (tokens_dtype c) t")
      case False
      with Inr have "jump_ahead E c t = (Inl OverflowError, snd (upsize c))"
        using u by (intro jump_ahead_raises) (auto simp: c1_def)
      with s1 show ?thesis by (simp add: c1_def)
    next
      case True
      have i: "np_index (tokens c1) (active_idx c1) = Inr k" using Inr a by simp
      have f: "dtype_fits (tokens_dtype c1) t" using True a by simp
      from jump_ahead_generate [OF u' i f, of E] s1
      show ?thesis by (simp add: sized_def accept_new_token_fields)
    qed
  qed
qed

lemma call_sized:
  fixes c :: "('m, 'lp, 'z) TextContext_scheme"
  assumes "sized c"
  shows "sized (snd (call E c x))"
proof (cases x)
  case (Update t lp is_eos)
  then show ?thesis using update_sized_any [OF assms] by (simp add: snd_no_value)
next
  case (Jump_ahead t)
  then show ?thesis using jump_ahead_sized_any [OF assms] by (simp add: snd_no_value)
next
  case (Bump_token_indices ds da de)
  with assms show ?thesis by (simp add: snd_no_value sized_def bump_weak(3,6))
next
  case Reset
  with assms show ?thesis by (simp add: reset_def sized_def)
next
  case Outstanding_completion_tokens
  with assms show ?thesis by (simp add: sized_def outstanding_weak(3,4))
next
  case (Set_matcher m)
  with assms show ?thesis by (simp add: set_matcher_def sized_def)
qed

lemma run_sized:
  fixes c :: "('m, 'lp, 'z) TextContext_scheme"
  shows "sized c \<Longrightarrow> sized (run E c xs)"
proof (induction xs arbitrary: c)
  case Nil
  then show ?case by simp
next
  case (Cons x xs)
  from call_sized [OF Cons.prems, of E x] show ?case by (simp add: Cons.IH)
qed

subsection \<open>The images of a TextAndVisionContext\<close>

lemma pixel_values_more:
  fixes c c' :: "('m, 'lp, 'px, 'a, 'z) TextAndVisionContext_scheme"
  shows "TextContext.more c' = TextContext.more c \<Longrightarrow> pixel_values c' = pixel_values c"
  by (cases c, cases c') simp

lemma call_more:
  fixes c :: "('m, 'lp, 'z) TextContext_scheme"
  shows "TextContext.more (snd (call E c x)) = TextContext.more c"
proof (cases x)
  case (Update t lp is_eos)
  then show ?thesis by (simp add: snd_no_value update_weak(5))
next
  case (Jump_ahead t)
  then show ?thesis by (simp add: snd_no_value jump_ahead_weak(5))
next
  case (Bump_token_indices ds da de)
  then show ?thesis by (simp add: snd_no_value bump_weak(5))
next
  case Reset
  then show ?thesis by (simp add: reset_def)
next
  case Outstanding_completion_tokens
  then show ?thesis by (simp add: outstanding_weak(8))
next
  case (Set_matcher m)
  then show ?thesis by (simp add: set_matcher_def)
qed

lemma vision_update_pixels:
  fixes c :: "('m, 'lp, 'px, 'a, 'z) TextAndVisionContext_scheme"
  shows "pixel_values (snd (vision_update E c t lp is_eos)) =
           (if fst (vision_update E c t lp is_eos) = Inr () then [] else pixel_values c)"
proof -
  obtain r c1 where u: "update E c t lp is_eos = (r, c1)" by (cases "update E c t lp is_eos")
  have "TextContext.more c1 = TextContext.more c"
    using update_weak(5) [of E c t lp is_eos] u by simp
  then have "pixel_values c1 = pixel_values c" by (rule pixel_values_more)
  then show ?thesis
    by (cases r) (simp_all add: vision_update_def u)
qed

lemma vision_call_pixels:
  fixes c :: "('m, 'lp, 'px, 'a, 'z) TextAndVisionContext_scheme"
  assumes "pixel_values c = []"
  shows "pixel_values (snd (vision_call E c x)) = []"
proof (cases "\<exists>t lp is_eos. x = Update t lp is_eos")
  case True
  then show ?thesis using assms by (auto simp: snd_no_value vision_update_pixels)
next
  case False
  then have "vision_call E c x = call E c x" by (cases x) simp_all
  moreover have "pixel_values (snd (call E c x)) = pixel_values c"
    using call_more [of E c x] by (rule pixel_values_more)
  ultimately show ?thesis using assms by simp
qed

lemma vision_run_pixels:
  fixes c :: "('m, 'lp, 'px, 'a, 'z) TextAndVisionContext_scheme"
  shows "pixel_values c = [] \<Longrightarrow> pixel_values (vision_run E c xs) = []"
proof (induction xs arbitrary: c)
  case Nil
  then show ?case by simp
next
  case (Cons x xs)
  from vision_call_pixels [OF Cons.prems, of E x] show ?case
    by (simp add: Cons.IH)
qed

text \<open>
  C9. When a call of \<open>update\<close> on a TextAndVisionContext returns, \<open>pixel_values\<close> is
  empty, and it is empty after every later sequence of calls.
\<close>

theorem pixel_values_consumed:
  fixes c :: "('m, 'lp, 'px, 'a, 'z) TextAndVisionContext_scheme"
  assumes "fst (vision_update E c t lp is_eos) = Inr ()"
  shows "pixel_values (snd (vision_update E c t lp is_eos)) = [] \<and>
         pixel_values (vision_run E (snd (vision_update E c t lp is_eos)) xs) = []"
proof -
  have "pixel_values (snd (vision_update E c t lp is_eos)) = []"
    using assms by (simp add: vision_update_pixels)
  then show ?thesis by (simp add: vision_run_pixels)
qed

lemma vision3_constructed:
  "TextAndVisionContext_init 0 (Inr [1, 2, 3]) None (array1 Int64 [1, 2, 3]) [42] Map.empty 0 False None
     = Inr vision3"
  by (simp add: TextAndVisionContext_init_def init_prompt3 vision3_def)

lemma vision3_update:
  "vision_update accept_all vision3 5 (Some 7) False =
     (Inr (), TextContext.extend generated3 \<lparr>pixel_values = [], extra_model_args = Map.empty\<rparr>)"
proof -
  have u: "upsize vision3 = (Inr (), vision3)"
    by (simp add: upsize_def vision3_def prompt3_def TextContext.defs)
  have i: "np_index (tokens vision3) (active_idx vision3) = Inr 3"
    by (simp add: np_index_def vision3_def prompt3_def TextContext.defs)
  have n: "\<not> active_idx vision3 < end_idx vision3"
    by (simp add: vision3_def prompt3_def TextContext.defs)
  have f: "dtype_fits (tokens_dtype vision3) 5"
    by (simp add: dtype_fits_def vision3_def prompt3_def TextContext.defs)
  from update_generate [OF n u i f, of accept_all "Some 7" False]
  show ?thesis
    by (simp add: vision_update_def accept_new_token_def ledger_put_def accept_all_def
          generated3_def prompt3_def vision3_def numeral_nat TextContext.defs)
qed

theorem pixel_values_consumed_witness:
  "TextAndVisionContext_init 0 (Inr [1, 2, 3]) None (array1 Int64 [1, 2, 3]) [42] Map.empty 0 False None
     = Inr vision3 \<and>
   pixel_values vision3 = [42] \<and>
   fst (vision_update accept_all vision3 5 (Some 7) False) = Inr () \<and>
   pixel_values (snd (vision_update accept_all vision3 5 (Some 7) False)) = [] \<and>
   pixel_values (vision_run accept_all (snd (vision_update accept_all vision3 5 (Some 7) False))
      [Update 6 None False, Outstanding_completion_tokens]) = []"
proof -
  have ok: "fst (vision_update accept_all vision3 5 (Some 7) False) = Inr ()"
    by (simp add: vision3_update)
  have "pixel_values vision3 = [42]"
    by (simp add: vision3_def TextContext.defs)
  with ok pixel_values_consumed [OF ok, of "[Update 6 None False, Outstanding_completion_tokens]"]
    vision3_constructed
  show ?thesis by simp
qed

subsection \<open>The invariants over sequences of calls\<close>

text \<open>
  C1, amended. After construction from a one-dimensional array and after every sequence
  of calls of the public methods, whether they return or raise,
  \<open>active_idx \<le> end_idx\<close>, the capacity is a multiple of 128 and
  \<open>completion_start_idx \<le> completion_end_idx\<close>. If every call of \<open>bump_token_indices\<close>
  in the sequence has a start delta that is omitted or not negative and an end delta that
  is omitted or zero, all the invariants hold:
  \<open>0 \<le> start_idx \<le> active_idx \<le> end_idx \<le> capacity\<close>, the capacity a multiple of 128, and
  \<open>completion_start_idx \<le> completion_end_idx \<le> end_idx\<close>; the array is then as long as
  the capacity says.
\<close>

theorem window_invariant_maintained:
  fixes c :: "('m, 'lp) TextContext"
  assumes "TextContext_init cid pr ml (array1 d p) lps echo js = Inr c"
  shows "(list_all forward_bump xs \<longrightarrow>
            window_invariant (run E c xs) \<and> sized (run E c xs)) \<and>
         active_idx (run E c xs) \<le> end_idx (run E c xs) \<and>
         size_cap (run E c xs) mod 128 = 0 \<and>
         completion_start_idx (run E c xs) \<le> completion_end_idx (run E c xs)"
proof -
  have i: "window_invariant c" "sized c"
    using init_invariant [OF assms] by simp_all
  then have w: "active_idx c \<le> end_idx c" "size_cap c mod CHUNK_SIZE = 0"
      "completion_start_idx c \<le> completion_end_idx c"
    by (simp_all add: window_invariant_def)
  have "list_all forward_bump xs \<longrightarrow> window_invariant (run E c xs) \<and> sized (run E c xs)"
    using run_invariant [OF i, of xs E] by simp
  moreover have "active_idx (run E c xs) \<le> end_idx (run E c xs) \<and>
    size_cap (run E c xs) mod CHUNK_SIZE = 0 \<and>
    completion_start_idx (run E c xs) \<le> completion_end_idx (run E c xs)"
    by (rule run_weak [OF w])
  ultimately show ?thesis by (simp add: CHUNK_SIZE_def)
qed

theorem window_invariant_maintained_witness:
  "TextContext_init 0 (Inr [1, 2, 3]) None (array1 Int64 [1, 2, 3]) 0 False None = Inr prompt3 \<and>
   list_all forward_bump
     [Update 5 (Some 7) False, Bump_token_indices (Some 1) (Some (- 1)) None, Reset,
      Jump_ahead 6, Outstanding_completion_tokens] \<and>
   window_invariant
     (run accept_all prompt3
        [Update 5 (Some 7) False, Bump_token_indices (Some 1) (Some (- 1)) None, Reset,
         Jump_ahead 6, Outstanding_completion_tokens]) \<and>
   sized
     (run accept_all prompt3
        [Update 5 (Some 7) False, Bump_token_indices (Some 1) (Some (- 1)) None, Reset,
         Jump_ahead 6, Outstanding_completion_tokens])"
  using window_invariant_maintained [OF init_prompt3,
      of "[Update 5 (Some 7) False, Bump_token_indices (Some 1) (Some (- 1)) None, Reset,
           Jump_ahead 6, Outstanding_completion_tokens]" accept_all]
    init_prompt3
  by (simp add: or_zero_def)

text \<open>
  As the specification states it, the property fails for \<open>bump_token_indices\<close>, which checks the order of the
  three new cursors and nothing else: with an end delta of 200 on a prompt of three
  tokens it returns normally and leaves \<open>end_idx = 203\<close> above the capacity 128.
\<close>

theorem window_invariant_counterexample:
  "TextContext_init 0 (Inr [1, 2, 3]) None (array1 Int64 [1, 2, 3]) 0 False None = Inr prompt3 \<and>
   bump_token_indices prompt3 None None (Some 200) = (Inr (), prompt3\<lparr>end_idx := 203\<rparr>) \<and>
   end_idx (run accept_all prompt3 [Bump_token_indices None None (Some 200)]) = 203 \<and>
   size_cap (run accept_all prompt3 [Bump_token_indices None None (Some 200)]) = 128 \<and>
   \<not> window_invariant (run accept_all prompt3 [Bump_token_indices None None (Some 200)])"
proof -
  have b: "bump_token_indices prompt3 None None (Some 200) = (Inr (), prompt3\<lparr>end_idx := 203\<rparr>)"
    by (simp add: bump_token_indices_def or_zero_def prompt3_def)
  then have r: "run accept_all prompt3 [Bump_token_indices None None (Some 200)] =
      prompt3\<lparr>end_idx := 203\<rparr>"
    by (simp add: no_value_def)
  show ?thesis
    unfolding r using init_prompt3 b by (simp add: window_invariant_def prompt3_def)
qed

subsection \<open>The completion window\<close>

lemma returned_positions_cases:
  "returned_positions c x r = [] \<or>
   x = Outstanding_completion_tokens \<and> (\<exists>v. r = Inr v) \<and>
   returned_positions c x r = [completion_start_idx c..completion_end_idx c - 1]"
  by (cases x; cases r) (simp_all add: returned_positions_def)

lemma call_completion_start:
  fixes c :: "('m, 'lp, 'z) TextContext_scheme"
  assumes "completion_start_idx c \<le> completion_end_idx c"
  shows "completion_start_idx c \<le> completion_start_idx (snd (call E c x))"
proof (cases x)
  case (Update t lp is_eos)
  then show ?thesis by (simp add: snd_no_value update_weak(1))
next
  case (Jump_ahead t)
  then show ?thesis by (simp add: snd_no_value jump_ahead_weak(1))
next
  case (Bump_token_indices ds da de)
  then show ?thesis by (simp add: snd_no_value bump_weak(1))
next
  case Reset
  then show ?thesis by (simp add: reset_def)
next
  case Outstanding_completion_tokens
  then show ?thesis using assms outstanding_weak(1) [of c] by auto
next
  case (Set_matcher m)
  then show ?thesis by (simp add: set_matcher_def)
qed

lemma call_completion_order:
  fixes c :: "('m, 'lp, 'z) TextContext_scheme"
  assumes "completion_start_idx c \<le> completion_end_idx c"
  shows "completion_start_idx (snd (call E c x)) \<le> completion_end_idx (snd (call E c x))"
proof (cases x)
  case (Update t lp is_eos)
  then show ?thesis
    using assms update_weak(2) [of E c t lp is_eos]
    by (auto simp: snd_no_value update_weak(1))
next
  case (Jump_ahead t)
  then show ?thesis
    using assms jump_ahead_weak(2) [of E c t]
    by (auto simp: snd_no_value jump_ahead_weak(1))
next
  case (Bump_token_indices ds da de)
  then show ?thesis using assms by (simp add: snd_no_value bump_weak(1,2))
next
  case Reset
  then show ?thesis using assms by (simp add: reset_def)
next
  case Outstanding_completion_tokens
  then show ?thesis using assms outstanding_weak(1) [of c] by (auto simp: outstanding_weak(2))
next
  case (Set_matcher m)
  then show ?thesis using assms by (simp add: set_matcher_def)
qed

lemma call_returned_positions:
  fixes c :: "('m, 'lp, 'z) TextContext_scheme"
  assumes "p \<in> set (returned_positions c x (fst (call E c x)))"
  shows "completion_start_idx c \<le> p \<and> p < completion_end_idx c \<and>
         p < completion_start_idx (snd (call E c x))"
proof -
  from returned_positions_cases [of c x "fst (call E c x)"] assms
  obtain v where x: "x = Outstanding_completion_tokens"
    and v: "fst (call E c x) = Inr v"
    and r: "returned_positions c x (fst (call E c x)) =
              [completion_start_idx c..completion_end_idx c - 1]"
    by auto
  from v x have "fst (outstanding_completion_tokens c) = Inr v" by simp
  then have "completion_start_idx (snd (outstanding_completion_tokens c)) = completion_end_idx c"
    by (rule outstanding_returns(1))
  with assms r x show ?thesis by simp
qed

lemma drained_above:
  fixes c :: "('m, 'lp, 'z) TextContext_scheme"
  shows "completion_start_idx c \<le> completion_end_idx c \<Longrightarrow>
    distinct (drained E c xs) \<and> (\<forall>p \<in> set (drained E c xs). completion_start_idx c \<le> p)"
proof (induction xs arbitrary: c)
  case Nil
  then show ?case by simp
next
  case (Cons x xs)
  define c' where "c' = snd (call E c x)"
  define R where "R = returned_positions c x (fst (call E c x))"
  have ord: "completion_start_idx c' \<le> completion_end_idx c'"
    unfolding c'_def using Cons.prems by (rule call_completion_order)
  have mono: "completion_start_idx c \<le> completion_start_idx c'"
    unfolding c'_def using Cons.prems by (rule call_completion_start)
  have R: "\<forall>p \<in> set R. completion_start_idx c \<le> p \<and> p < completion_start_idx c'"
    unfolding R_def c'_def using call_returned_positions by blast
  have dR: "distinct R"
    using returned_positions_cases [of c x "fst (call E c x)"] by (auto simp: R_def)
  from Cons.IH [OF ord]
  have IH: "distinct (drained E c' xs)"
    "\<forall>p \<in> set (drained E c' xs). completion_start_idx c' \<le> p"
    by simp_all
  have split: "drained E c (x # xs) = R @ drained E c' xs"
    by (simp add: R_def c'_def)
  have "set R \<inter> set (drained E c' xs) = {}"
    using R IH(2) by fastforce
  with dR IH(1) have "distinct (R @ drained E c' xs)"
    by simp
  moreover have "\<forall>p \<in> set (R @ drained E c' xs). completion_start_idx c \<le> p"
    using R IH(2) mono by fastforce
  ultimately show ?case unfolding split by simp
qed

text \<open>
  C7. Over any sequence of calls on a constructed context, the ranges
  \<open>[completion_start_idx, completion_end_idx)\<close> that the returning calls of
  \<open>outstanding_completion_tokens\<close> give tokens of have no position in common: listed one
  after the other, the positions returned are all different.
\<close>

theorem drained_positions_distinct:
  fixes c :: "('m, 'lp) TextContext"
  assumes "TextContext_init cid pr ml a lps echo js = Inr c"
  shows "distinct (drained E c xs)"
proof -
  from assms have "completion_start_idx c = completion_end_idx c"
    by (auto simp: TextContext_init_def Let_def split: if_splits)
  then have "completion_start_idx c \<le> completion_end_idx c" by simp
  then show ?thesis using drained_above by blast
qed

lemma drained_example:
  "drained accept_all prompt3
     [Update 5 (Some 7) False, Outstanding_completion_tokens, Jump_ahead 6,
      Outstanding_completion_tokens, Outstanding_completion_tokens] = [3, 4]"
proof -
  define g2 where "g2 = generated3\<lparr>completion_start_idx := 4, log_probabilities_data := Map.empty\<rparr>"
  define g3 where "g3 = g2\<lparr>tokens := [1, 2, 3, 5, 6] @ replicate 123 0, active_idx := 5,
      end_idx := 5, completion_end_idx := 5\<rparr>"
  define g4 where "g4 = g3\<lparr>completion_start_idx := 5\<rparr>"
  have s1: "no_value (update accept_all prompt3 5 (Some 7) False) = (Inr [], generated3)"
    by (simp add: generated3_reached no_value_def)
  have s2: "outstanding_completion_tokens generated3 = (Inr [(5, Some 7)], g2)"
    by (simp add: outstanding_completion_tokens_def generated3_def prompt3_def g2_def np_index_def)
  have u: "upsize g2 = (Inr (), g2)"
    by (simp add: upsize_def g2_def generated3_def prompt3_def)
  have i: "np_index (tokens g2) (active_idx g2) = Inr 4"
    by (simp add: np_index_def g2_def generated3_def prompt3_def)
  have f: "dtype_fits (tokens_dtype g2) 6"
    by (simp add: dtype_fits_def g2_def generated3_def prompt3_def)
  have s3: "no_value (jump_ahead accept_all g2 6) = (Inr [], g3)"
    by (simp add: jump_ahead_def u i f no_value_def accept_new_token_def Let_def)
       (simp add: g3_def g2_def generated3_def prompt3_def numeral_nat)
  have s4: "outstanding_completion_tokens g3 = (Inr [(6, None)], g4)"
    by (simp add: outstanding_completion_tokens_def g3_def g2_def g4_def generated3_def prompt3_def np_index_def)
  have s5: "fst (outstanding_completion_tokens g4) = Inr []"
    by (simp add: outstanding_completion_tokens_def g3_def g2_def g4_def generated3_def prompt3_def)
  have c: "completion_start_idx generated3 = 3" "completion_end_idx generated3 = 4"
    "completion_start_idx g3 = 4" "completion_end_idx g3 = 5"
    "completion_start_idx g4 = 5" "completion_end_idx g4 = 5"
    by (simp_all add: g3_def g2_def g4_def generated3_def prompt3_def)
  show ?thesis
    by (simp add: s1 s2 s3 s4 s5 returned_positions_def c)
qed

theorem drained_positions_distinct_witness:
  "TextContext_init 0 (Inr [1, 2, 3]) None (array1 Int64 [1, 2, 3]) 0 False None = Inr prompt3 \<and>
   drained accept_all prompt3
     [Update 5 (Some 7) False, Outstanding_completion_tokens, Jump_ahead 6,
      Outstanding_completion_tokens, Outstanding_completion_tokens] = [3, 4] \<and>
   distinct (drained accept_all prompt3
     [Update 5 (Some 7) False, Outstanding_completion_tokens, Jump_ahead 6,
      Outstanding_completion_tokens, Outstanding_completion_tokens])"
  using drained_positions_distinct [OF init_prompt3, of accept_all
     "[Update 5 (Some 7) False, Outstanding_completion_tokens, Jump_ahead 6,
      Outstanding_completion_tokens, Outstanding_completion_tokens]"] init_prompt3
    drained_example
  by simp

subsection \<open>The end-of-sequence token\<close>

lemma call_keeps_completion_end:
  fixes c :: "('m, 'lp, 'z) TextContext_scheme"
  assumes "keeps_completion_end x"
  shows "completion_end_idx (snd (call E c x)) = completion_end_idx c"
proof (cases x)
  case (Update t lp is_eos)
  with assms have "is_eos" by simp
  with update_weak(2) [of E c t lp is_eos] Update show ?thesis
    by (simp add: snd_no_value)
next
  case (Jump_ahead t)
  with assms show ?thesis by simp
next
  case (Bump_token_indices ds da de)
  then show ?thesis by (simp add: snd_no_value bump_weak(2))
next
  case Reset
  then show ?thesis by (simp add: reset_def)
next
  case Outstanding_completion_tokens
  then show ?thesis by (simp add: outstanding_weak(2))
next
  case (Set_matcher m)
  then show ?thesis by (simp add: set_matcher_def)
qed

lemma drained_below:
  fixes c :: "('m, 'lp, 'z) TextContext_scheme"
  shows "list_all keeps_completion_end xs \<Longrightarrow>
    \<forall>p \<in> set (drained E c xs). p < completion_end_idx c"
proof (induction xs arbitrary: c)
  case Nil
  then show ?case by simp
next
  case (Cons x xs)
  from Cons.prems have k: "keeps_completion_end x" and ks: "list_all keeps_completion_end xs"
    by simp_all
  have "\<forall>p \<in> set (drained E (snd (call E c x)) xs). p < completion_end_idx (snd (call E c x))"
    using ks by (rule Cons.IH)
  then have "\<forall>p \<in> set (drained E (snd (call E c x)) xs). p < completion_end_idx c"
    by (simp add: call_keeps_completion_end [OF k])
  moreover have "\<forall>p \<in> set (returned_positions c x (fst (call E c x))). p < completion_end_idx c"
    using call_returned_positions by blast
  ultimately show ?case by auto
qed

text \<open>
  C3, amended. In a state with \<open>0 \<le> active_idx = end_idx \<le> size\<close> and
  \<open>completion_end_idx \<le> end_idx\<close>, the array as long as \<open>size\<close> says, \<open>update\<close> with
  \<open>is_eos\<close> true and a token that fits the array's dtype writes the token at the old
  \<open>active_idx\<close>, adds one to \<open>end_idx\<close> and leaves \<open>completion_end_idx\<close> as it was. Over
  every later sequence of calls that contains no \<open>jump_ahead\<close> and no \<open>update\<close> with
  \<open>is_eos\<close> false, the position of that token is in none of the ranges
  \<open>outstanding_completion_tokens\<close> returns.
\<close>

theorem eos_token_excluded:
  fixes c :: "('m, 'lp, 'z) TextContext_scheme"
  assumes "sized c" "0 \<le> active_idx c" "active_idx c = end_idx c"
    and "end_idx c \<le> size_cap c" "completion_end_idx c \<le> end_idx c"
    and "dtype_fits (tokens_dtype c) t"
  shows "tokens (snd (update E c t lp True)) ! nat (active_idx c) = t \<and>
         end_idx (snd (update E c t lp True)) = end_idx c + 1 \<and>
         completion_end_idx (snd (update E c t lp True)) = completion_end_idx c \<and>
         (list_all keeps_completion_end xs \<longrightarrow>
            active_idx c \<notin> set (drained E (snd (update E c t lp True)) xs))"
proof -
  note a0 = assms(2) and es = assms(4) and ce = assms(5)
  have ae: "active_idx c \<le> end_idx c" using assms(3) by simp
  define c1 where "c1 = snd (upsize c)"
  define c7 where "c7 = c1\<lparr>tokens := (tokens c1)[nat (active_idx c) := t],
                log_probabilities_data :=
                  ledger_put E (log_probabilities_data c) (active_idx c) lp,
                start_idx := active_idx c,
                active_idx := active_idx c + 1, end_idx := end_idx c + 1,
                completion_end_idx := completion_end_idx c + (if True then 0 else 1)\<rparr>"
  have u: "update E c t lp True = accept_new_token E c7 t"
    using update_sized [OF assms(1) a0 assms(3) es assms(6), of E lp True]
    by (simp add: c7_def c1_def)
  have inb: "nat (active_idx c) < length (tokens c1)"
    using write_index(2) [OF assms(1) a0 within_buffer [OF ae es]] by (simp add: c1_def)
  have 1: "tokens (snd (update E c t lp True)) ! nat (active_idx c) = t"
    using inb by (simp add: u accept_new_token_fields c7_def)
  have 2: "end_idx (snd (update E c t lp True)) = end_idx c + 1"
    by (simp add: u accept_new_token_fields c7_def)
  have 3: "completion_end_idx (snd (update E c t lp True)) = completion_end_idx c"
    by (simp add: u accept_new_token_fields c7_def)
  have 4: "active_idx c \<notin> set (drained E (snd (update E c t lp True)) xs)"
    if "list_all keeps_completion_end xs"
  proof
    assume "active_idx c \<in> set (drained E (snd (update E c t lp True)) xs)"
    with drained_below [OF that, of E "snd (update E c t lp True)"]
    have "active_idx c < completion_end_idx (snd (update E c t lp True))" by blast
    with 3 ce assms(3) show False by simp
  qed
  from 1 2 3 4 show ?thesis by blast
qed

lemma eos3_reached: "update accept_all prompt3 5 None True = (Inr (), eos3)"
proof -
  have i: "np_index (tokens prompt3) (active_idx prompt3) = Inr 3"
    by (simp add: np_index_def prompt3_def)
  have n: "\<not> active_idx prompt3 < end_idx prompt3" by (simp add: prompt3_def)
  have f: "dtype_fits (tokens_dtype prompt3) 5"
    by (simp add: dtype_fits_def prompt3_def)
  from update_generate [OF n upsize_prompt3 i f, of accept_all None True]
  show ?thesis
    by (simp add: accept_new_token_def ledger_put_def accept_all_def eos3_def prompt3_def
          numeral_nat)
qed

lemma eos3_continued:
  "update accept_all eos3 7 None False =
     (Inr (), eos3\<lparr>tokens := [1, 2, 3, 5, 7] @ replicate 123 0, active_idx := 5,
                 start_idx := 4, end_idx := 5, completion_end_idx := 4\<rparr>)"
proof -
  have u: "upsize eos3 = (Inr (), eos3)"
    by (simp add: upsize_def eos3_def prompt3_def)
  have i: "np_index (tokens eos3) (active_idx eos3) = Inr 4"
    by (simp add: np_index_def eos3_def prompt3_def)
  have n: "\<not> active_idx eos3 < end_idx eos3" by (simp add: eos3_def prompt3_def)
  have f: "dtype_fits (tokens_dtype eos3) 7"
    by (simp add: dtype_fits_def eos3_def prompt3_def)
  from update_generate [OF n u i f, of accept_all None False]
  show ?thesis
    by (simp add: accept_new_token_def ledger_put_def accept_all_def eos3_def prompt3_def
          numeral_nat)
qed

text \<open>
  As the specification states it, the property fails when generation goes on after the
  end-of-sequence token: \<open>completion_end_idx\<close> counts delivered tokens and does not skip a
  position. After the token 5 with \<open>is_eos\<close> true at position 3 and the token 7 with
  \<open>is_eos\<close> false at position 4, \<open>outstanding_completion_tokens\<close> returns the range
  \<open>[3, 4)\<close>, that is the end-of-sequence token 5.
\<close>

theorem eos_token_counterexample:
  "TextContext_init 0 (Inr [1, 2, 3]) None (array1 Int64 [1, 2, 3]) 0 False None = Inr prompt3 \<and>
   update accept_all prompt3 5 None True = (Inr (), eos3) \<and>
   tokens eos3 ! 3 = 5 \<and>
   drained accept_all eos3 [Update 7 None False, Outstanding_completion_tokens] = [3] \<and>
   fst (outstanding_completion_tokens (run accept_all eos3 [Update 7 None False])) =
     Inr [(5, None)]"
proof -
  define c2 where "c2 = eos3\<lparr>tokens := [1, 2, 3, 5, 7] @ replicate 123 0, active_idx := 5,
                 start_idx := 4, end_idx := 5, completion_end_idx := 4\<rparr>"
  have r: "run accept_all eos3 [Update 7 None False] = c2"
    "no_value (update accept_all eos3 7 None False) = (Inr [], c2)"
    by (simp_all add: eos3_continued c2_def no_value_def)
  have cs: "completion_start_idx c2 = 3" "completion_end_idx c2 = 4"
    by (simp_all add: c2_def eos3_def prompt3_def)
  have "0 \<le> completion_start_idx c2" "completion_end_idx c2 \<le> int (length (tokens c2))"
    by (simp_all add: c2_def eos3_def prompt3_def)
  from outstanding_in_range [OF this]
  have o: "fst (outstanding_completion_tokens c2) = Inr [(5, None)]"
    by (simp add: cs) (simp add: c2_def eos3_def prompt3_def)
  have d: "drained accept_all eos3 [Update 7 None False, Outstanding_completion_tokens] = [3]"
    by (simp add: r o returned_positions_def cs)
  have "tokens eos3 ! 3 = 5" by (simp add: eos3_def)
  with init_prompt3 eos3_reached d o r(1) show ?thesis by simp
qed

text \<open>
  An instance with a delivery: after the scored token 5 at position 3, the
  end-of-sequence token 6 goes to position 4; the next call of
  \<open>outstanding_completion_tokens\<close> returns position 3, the later one nothing.
\<close>

lemma eos_example:
  "update accept_all generated3 6 None True =
     (Inr (), generated3\<lparr>tokens := [1, 2, 3, 5, 6] @ replicate 123 0, active_idx := 5,
                 start_idx := 4, end_idx := 5\<rparr>)"
  "drained accept_all
     (generated3\<lparr>tokens := [1, 2, 3, 5, 6] @ replicate 123 0, active_idx := 5,
                 start_idx := 4, end_idx := 5\<rparr>)
     [Outstanding_completion_tokens, Reset, Update 9 None True,
      Outstanding_completion_tokens] = [3]"
proof -
  define e1 where "e1 = generated3\<lparr>tokens := [1, 2, 3, 5, 6] @ replicate 123 0, active_idx := 5,
                 start_idx := 4, end_idx := 5\<rparr>"
  define e2 where "e2 = e1\<lparr>completion_start_idx := 4, log_probabilities_data := Map.empty\<rparr>"
  define e3 where "e3 = e2\<lparr>start_idx := 0, is_initial_prompt := True\<rparr>"
  define e4 where "e4 = e3\<lparr>tokens := [1, 2, 3, 5, 6, 9] @ replicate 122 0, active_idx := 6,
                 start_idx := 5, end_idx := 6, is_initial_prompt := False\<rparr>"
  have u0: "upsize generated3 = (Inr (), generated3)"
    by (simp add: upsize_def generated3_def prompt3_def)
  have i0: "np_index (tokens generated3) (active_idx generated3) = Inr 4"
    by (simp add: np_index_def generated3_def prompt3_def)
  have n0: "\<not> active_idx generated3 < end_idx generated3"
    by (simp add: generated3_def prompt3_def)
  have f0: "dtype_fits (tokens_dtype generated3) 6"
    by (simp add: dtype_fits_def generated3_def prompt3_def)
  from update_generate [OF n0 u0 i0 f0, of accept_all None True]
  show s0: "update accept_all generated3 6 None True =
     (Inr (), generated3\<lparr>tokens := [1, 2, 3, 5, 6] @ replicate 123 0, active_idx := 5,
                 start_idx := 4, end_idx := 5\<rparr>)"
    by (simp add: accept_new_token_def ledger_put_def accept_all_def generated3_def prompt3_def
          numeral_nat)
  have s1: "outstanding_completion_tokens e1 = (Inr [(5, Some 7)], e2)"
    by (simp add: outstanding_completion_tokens_def e1_def e2_def generated3_def prompt3_def
          np_index_def)
  have s2: "reset e2 = e3" by (simp add: reset_def e3_def)
  have u3: "upsize e3 = (Inr (), e3)"
    by (simp add: upsize_def e3_def e2_def e1_def generated3_def prompt3_def)
  have i3: "np_index (tokens e3) (active_idx e3) = Inr 5"
    by (simp add: np_index_def e3_def e2_def e1_def generated3_def prompt3_def)
  have n3: "\<not> active_idx e3 < end_idx e3"
    by (simp add: e3_def e2_def e1_def generated3_def prompt3_def)
  have f3: "dtype_fits (tokens_dtype e3) 9"
    by (simp add: dtype_fits_def e3_def e2_def e1_def generated3_def prompt3_def)
  from update_generate [OF n3 u3 i3 f3, of accept_all None True]
  have s3: "no_value (update accept_all e3 9 None True) = (Inr [], e4)"
    by (simp add: accept_new_token_def ledger_put_def accept_all_def no_value_def
          e4_def e3_def e2_def e1_def generated3_def prompt3_def numeral_nat)
  have s4: "fst (outstanding_completion_tokens e4) = Inr []"
    by (simp add: outstanding_completion_tokens_def e4_def e3_def e2_def e1_def generated3_def
          prompt3_def)
  have c: "completion_start_idx e1 = 3" "completion_end_idx e1 = 4"
      "completion_start_idx e4 = 4" "completion_end_idx e4 = 4"
    by (simp_all add: e4_def e3_def e2_def e1_def generated3_def prompt3_def)
  have "drained accept_all e1
     [Outstanding_completion_tokens, Reset, Update 9 None True,
      Outstanding_completion_tokens] = [3]"
    by (simp add: s1 s2 s3 s4 returned_positions_def c)
  then show "drained accept_all
     (generated3\<lparr>tokens := [1, 2, 3, 5, 6] @ replicate 123 0, active_idx := 5,
                 start_idx := 4, end_idx := 5\<rparr>)
     [Outstanding_completion_tokens, Reset, Update 9 None True,
      Outstanding_completion_tokens] = [3]"
    by (simp add: e1_def)
qed

theorem eos_token_excluded_witness:
  "sized generated3 \<and> 0 \<le> active_idx generated3 \<and>
   active_idx generated3 = end_idx generated3 \<and> end_idx generated3 \<le> size_cap generated3 \<and>
   completion_end_idx generated3 \<le> end_idx generated3 \<and>
   dtype_fits (tokens_dtype generated3) 6 \<and>
   list_all keeps_completion_end
     [Outstanding_completion_tokens, Reset, Update 9 None True, Outstanding_completion_tokens] \<and>
   active_idx generated3 = 4 \<and>
   tokens (snd (update accept_all generated3 6 None True)) ! 4 = 6 \<and>
   end_idx (snd (update accept_all generated3 6 None True)) = 5 \<and>
   completion_end_idx (snd (update accept_all generated3 6 None True)) = 4 \<and>
   drained accept_all (snd (update accept_all generated3 6 None True))
     [Outstanding_completion_tokens, Reset, Update 9 None True, Outstanding_completion_tokens]
     = [3] \<and>
   4 \<notin> set (drained accept_all (snd (update accept_all generated3 6 None True))
     [Outstanding_completion_tokens, Reset, Update 9 None True, Outstanding_completion_tokens])"
proof -
  have h: "sized generated3" "0 \<le> active_idx generated3"
      "active_idx generated3 = end_idx generated3" "end_idx generated3 \<le> size_cap generated3"
      "completion_end_idx generated3 \<le> end_idx generated3"
      "dtype_fits (tokens_dtype generated3) 6"
    by (simp_all add: sized_def generated3_def prompt3_def dtype_fits_def)
  have a: "active_idx generated3 = 4" "end_idx generated3 = 4"
      "completion_end_idx generated3 = 4"
    by (simp_all add: generated3_def prompt3_def)
  have d: "drained accept_all (snd (update accept_all generated3 6 None True))
     [Outstanding_completion_tokens, Reset, Update 9 None True, Outstanding_completion_tokens]
     = [3]"
    unfolding eos_example(1) snd_conv by (rule eos_example(2))
  from eos_token_excluded [OF h, of accept_all None
      "[Outstanding_completion_tokens, Reset, Update 9 None True, Outstanding_completion_tokens]"]
  have "tokens (snd (update accept_all generated3 6 None True)) ! 4 = 6 \<and>
   end_idx (snd (update accept_all generated3 6 None True)) = 5 \<and>
   completion_end_idx (snd (update accept_all generated3 6 None True)) = 4 \<and>
   4 \<notin> set (drained accept_all (snd (update accept_all generated3 6 None True))
     [Outstanding_completion_tokens, Reset, Update 9 None True, Outstanding_completion_tokens])"
    by (simp add: a)
  with h a(1) d show ?thesis by simp
qed

end
